theory Spec2Isabelle
  imports Complex_Main
begin

section \<open>Numbers, constants and random draws\<close>

text \<open>
  The simulation core of \<^verbatim>\<open>PongAi.py\<close>: the classes \<^verbatim>\<open>Paddle\<close> and \<^verbatim>\<open>Ball\<close>, the function
  \<^verbatim>\<open>reset_game\<close> and the event handling and game logic of \<^verbatim>\<open>main\<close>.

  Python's numbers are modelled by \<^typ>\<open>real\<close> (positions, velocities, speeds; the
  arithmetic is the ideal one, rounding of binary floating point is not part of the
  model) and by \<^typ>\<open>int\<close> (the two scores). Rendering, sounds, the trail, the particles
  and the paddle glow read the simulation state and never write a field that the
  physics or the state machine reads, so they are left out of the records below.
\<close>

definition WIDTH :: real where
  "WIDTH = 1000"

definition HEIGHT :: real where
  "HEIGHT = 600"

definition max_score :: int where
  "max_score = 10"

text \<open>Python's \<^verbatim>\<open>a // b\<close>: the floor of the quotient.\<close>

definition floor_div :: "real \<Rightarrow> real \<Rightarrow> real" where
  "floor_div a b = of_int \<lfloor>a / b\<rfloor>"

text \<open>
  \<^verbatim>\<open>random.uniform(a, b)\<close> is \<^verbatim>\<open>a + (b - a) * random()\<close>; the draw \<open>u\<close> of
  \<^verbatim>\<open>random()\<close> is an explicit argument (\<open>0 \<le> u \<le> 1\<close> for a draw that can occur).
\<close>

definition uniform :: "real \<Rightarrow> real \<Rightarrow> real \<Rightarrow> real" where
  "uniform a b u = a + (b - a) * u"

datatype error = ZeroDivisionError

section \<open>Paddle\<close>

record paddle =
  p_x :: real
  p_y :: real
  p_width :: real
  p_height :: real
  p_speed :: real

text \<open>\<^verbatim>\<open>Paddle.__init__(x, y, width=15, height=80)\<close>, with \<^verbatim>\<open>speed = 6\<close>.\<close>

definition Paddle_init :: "real \<Rightarrow> real \<Rightarrow> paddle" where
  "Paddle_init x y = \<lparr>p_x = x, p_y = y, p_width = 15, p_height = 80, p_speed = 6\<rparr>"

definition move :: "real \<Rightarrow> paddle \<Rightarrow> paddle" where
  "move direction p =
     (let y1 = p_y p + p_speed p * direction
      in p\<lparr>p_y := max 20 (min (HEIGHT - 20 - p_height p) y1)\<rparr>)"

text \<open>
  \<^verbatim>\<open>ai_move(ball_y, difficulty)\<close>; \<open>u\<close> is the draw behind its \<^verbatim>\<open>random.uniform\<close>.
  \<open>move_amount0\<close> is \<^verbatim>\<open>move_amount\<close> before the cap, \<open>move_amount\<close> after it.
\<close>

definition ai_move :: "real \<Rightarrow> real \<Rightarrow> real \<Rightarrow> paddle \<Rightarrow> paddle" where
  "ai_move ball_y difficulty u p =
     (let center_y = p_y p + floor_div (p_height p) 2;
          target_y = ball_y + uniform (- p_height p * difficulty) (p_height p * difficulty) u;
          diff_y = target_y - center_y;
          move_amount0 = diff_y * 0.1;
          move_amount =
            (if \<bar>move_amount0\<bar> > p_speed p
             then (if move_amount0 > 0 then p_speed p else - p_speed p)
             else move_amount0);
          y1 = p_y p + move_amount
      in p\<lparr>p_y := max 20 (min (HEIGHT - 20 - p_height p) y1)\<rparr>)"

text \<open>A call of one of the two motion methods, with its arguments.\<close>

datatype paddle_call =
    Move real
  | Ai_move real real real

fun apply_call :: "paddle_call \<Rightarrow> paddle \<Rightarrow> paddle" where
  "apply_call (Move direction) p = move direction p"
| "apply_call (Ai_move ball_y difficulty u) p = ai_move ball_y difficulty u p"

text \<open>The paddle after each call of a sequence, in order.\<close>

fun paddle_trace :: "paddle \<Rightarrow> paddle_call list \<Rightarrow> paddle list" where
  "paddle_trace p [] = []"
| "paddle_trace p (c # cs) = apply_call c p # paddle_trace (apply_call c p) cs"

definition in_bounds :: "paddle \<Rightarrow> bool" where
  "in_bounds p \<longleftrightarrow> 20 \<le> p_y p \<and> p_y p \<le> HEIGHT - 20 - p_height p"

section \<open>Ball\<close>

record ball =
  b_x :: real
  b_y :: real
  b_radius :: real
  b_speed :: real
  b_vx :: real
  b_vy :: real

text \<open>
  \<^verbatim>\<open>reset_ball\<close>: \<open>u\<close> is the draw behind \<^verbatim>\<open>random.uniform(-pi/6, pi/6)\<close>, \<open>flip\<close> the
  outcome of \<^verbatim>\<open>random.choice([True, False])\<close>.
\<close>

definition launch_angle :: "real \<Rightarrow> bool \<Rightarrow> real" where
  "launch_angle u flip =
     (let angle = uniform (- pi / 6) (pi / 6) u
      in if flip then angle + pi else angle)"

definition reset_ball :: "real \<Rightarrow> bool \<Rightarrow> ball \<Rightarrow> ball" where
  "reset_ball u flip b =
     (let speed = 6;
          angle = launch_angle u flip
      in b\<lparr>b_speed := speed,
           b_vx := speed * cos angle,
           b_vy := speed * sin angle,
           b_x := floor_div WIDTH 2,
           b_y := floor_div HEIGHT 2\<rparr>)"

text \<open>\<^verbatim>\<open>Ball.__init__(x, y, radius=12)\<close> stores its arguments and calls \<^verbatim>\<open>reset_ball\<close>.\<close>

definition Ball_init :: "real \<Rightarrow> real \<Rightarrow> real \<Rightarrow> bool \<Rightarrow> ball" where
  "Ball_init x y u flip =
     reset_ball u flip
       \<lparr>b_x = x, b_y = y, b_radius = 12, b_speed = 0, b_vx = 0, b_vy = 0\<rparr>"

text \<open>
  \<^verbatim>\<open>update\<close>, in the order of its statements: the position is integrated, \<open>vy\<close> is
  reflected at the border bands, then a ball beyond the left or right edge scores for
  the other side and is reset. The scores are globals of the module, so \<^verbatim>\<open>update\<close>
  takes and returns them with the ball.
\<close>

definition integrate :: "ball \<Rightarrow> ball" where
  "integrate b = b\<lparr>b_x := b_x b + b_vx b, b_y := b_y b + b_vy b\<rparr>"

definition hits_wall :: "ball \<Rightarrow> bool" where
  "hits_wall b \<longleftrightarrow> b_y b - b_radius b \<le> 20 \<or> b_y b + b_radius b \<ge> HEIGHT - 20"

definition wall_collision :: "ball \<Rightarrow> ball" where
  "wall_collision b = (if hits_wall b then b\<lparr>b_vy := - b_vy b\<rparr> else b)"

section \<open>Match state and phase\<close>

datatype phase = Menu | Playing | Paused | Game_over

datatype mode = Mode_none | Player_vs_player | Player_vs_ai

datatype winner = Winner_none | Winner_left | Winner_right

record globals =
  score_left :: int
  score_right :: int
  game_state :: phase
  winner :: winner
  game_mode :: mode

definition reset_game :: "'a globals_scheme \<Rightarrow> 'a globals_scheme" where
  "reset_game g =
     (let g1 = g\<lparr>score_left := 0, score_right := 0\<rparr>
      in if game_state g1 = Game_over
         then g1\<lparr>game_state := Menu, game_mode := Mode_none\<rparr>
         else g1\<lparr>game_state := Playing\<rparr>)"

text \<open>
  The score detection that ends \<^verbatim>\<open>Ball.update\<close> (it writes the global scores), and
  \<^verbatim>\<open>update\<close> as a whole.
\<close>

definition score_detection ::
  "real \<Rightarrow> bool \<Rightarrow> ball \<times> 'a globals_scheme \<Rightarrow> ball \<times> 'a globals_scheme" where
  "score_detection u flip bg =
     (case bg of (b, g) \<Rightarrow>
        if b_x b < 0 then (reset_ball u flip b, g\<lparr>score_right := score_right g + 1\<rparr>)
        else if b_x b > WIDTH then (reset_ball u flip b, g\<lparr>score_left := score_left g + 1\<rparr>)
        else (b, g))"

definition update ::
  "real \<Rightarrow> bool \<Rightarrow> ball \<times> 'a globals_scheme \<Rightarrow> ball \<times> 'a globals_scheme" where
  "update u flip bg =
     (case bg of (b, g) \<Rightarrow> score_detection u flip (wall_collision (integrate b), g))"

section \<open>Ball against paddle\<close>

definition overlaps :: "ball \<Rightarrow> paddle \<Rightarrow> bool" where
  "overlaps b p \<longleftrightarrow>
     b_x b - b_radius b \<le> p_x p + p_width p \<and>
     b_x b + b_radius b \<ge> p_x p \<and>
     b_y b - b_radius b \<le> p_y p + p_height p \<and>
     b_y b + b_radius b \<ge> p_y p"

text \<open>
  \<^verbatim>\<open>hit_pos\<close> and \<^verbatim>\<open>bounce_angle\<close> as \<^verbatim>\<open>check_paddle_collision\<close> computes them; the
  division is guarded where the function is called.
\<close>

definition hit_pos :: "ball \<Rightarrow> paddle \<Rightarrow> real" where
  "hit_pos b p =
     (let paddle_center = p_y p + floor_div (p_height p) 2
      in (b_y b - paddle_center) / floor_div (p_height p) 2)"

definition bounce_angle :: "ball \<Rightarrow> paddle \<Rightarrow> real" where
  "bounce_angle b p = hit_pos b p * pi / 3"

text \<open>
  The result is the returned flag with the ball as the call leaves it. Both divisions
  raise \<^verbatim>\<open>ZeroDivisionError\<close> on a zero divisor: the one by \<^verbatim>\<open>paddle.height // 2\<close> and the
  one by \<^verbatim>\<open>speed_magnitude\<close>.
\<close>

definition check_paddle_collision :: "ball \<Rightarrow> paddle \<Rightarrow> error + (bool \<times> ball)" where
  "check_paddle_collision b p =
     (if overlaps b p then
        if floor_div (p_height p) 2 = 0 then Inl ZeroDivisionError
        else
          let vx1 = (if p_x p < floor_div WIDTH 2 then \<bar>b_vx b\<bar> else - \<bar>b_vx b\<bar>);
              vy1 = b_speed b * sin (bounce_angle b p);
              speed1 = min 12 (b_speed b + 0.2);
              speed_magnitude = sqrt (vx1\<^sup>2 + vy1\<^sup>2)
          in if speed_magnitude = 0 then Inl ZeroDivisionError
             else Inr (True,
                    b\<lparr>b_vx := vx1 / speed_magnitude * speed1,
                      b_vy := vy1 / speed_magnitude * speed1,
                      b_speed := speed1\<rparr>)
      else Inr (False, b))"

text \<open>
  The ball states that a run of the program passes through: a reset with draws that
  can occur, then any sequence of updates and collision checks that return.
\<close>

inductive reachable :: "ball \<Rightarrow> bool" where
  reach_reset: "0 \<le> u \<Longrightarrow> u \<le> 1 \<Longrightarrow> reachable (reset_ball u flip b)"
| reach_update:
    "reachable b \<Longrightarrow> 0 \<le> u \<Longrightarrow> u \<le> 1 \<Longrightarrow> update u flip (b, g :: globals) = (b', g') \<Longrightarrow>
     reachable b'"
| reach_collision:
    "reachable b \<Longrightarrow> check_paddle_collision b p = Inr (hit, b') \<Longrightarrow> reachable b'"

text \<open>
  What every such ball state satisfies: a horizontal velocity that is not zero, and a
  speed between the base speed and the cap.
\<close>

definition ball_ok :: "ball \<Rightarrow> bool" where
  "ball_ok b \<longleftrightarrow> b_vx b \<noteq> 0 \<and> 6 \<le> b_speed b \<and> b_speed b \<le> 12"

section \<open>The main loop\<close>

datatype key = K_q | K_SPACE | K_p | K_r | K_1 | K_2 | K_w | K_s | K_UP | K_DOWN | K_other

datatype event = QUIT | KEYDOWN key | KEYUP key | Other_event

text \<open>The globals of the module together with the locals of \<^verbatim>\<open>main\<close>.\<close>

record game = globals +
  left_paddle :: paddle
  right_paddle :: paddle
  ball :: ball
  left_up :: bool
  left_down :: bool
  right_up :: bool
  right_down :: bool
  running :: bool

text \<open>The state \<^verbatim>\<open>main\<close> starts its loop in; \<open>u\<close> and \<open>flip\<close> are the draws of the first reset.\<close>

definition initial :: "real \<Rightarrow> bool \<Rightarrow> game" where
  "initial u flip =
     \<lparr>score_left = 0, score_right = 0, game_state = Menu, winner = Winner_none,
      game_mode = Mode_none,
      left_paddle = Paddle_init 30 (floor_div HEIGHT 2 - 40),
      right_paddle = Paddle_init (WIDTH - 45) (floor_div HEIGHT 2 - 40),
      ball = Ball_init (floor_div WIDTH 2) (floor_div HEIGHT 2) u flip,
      left_up = False, left_down = False, right_up = False, right_down = False,
      running = True\<rparr>"

text \<open>The \<^verbatim>\<open>if\<close>/\<^verbatim>\<open>elif\<close> chain on the key of a \<^verbatim>\<open>KEYDOWN\<close> event.\<close>

definition command_key :: "key \<Rightarrow> game \<Rightarrow> game" where
  "command_key k s =
     (if k = K_q then s\<lparr>running := False\<rparr>
      else if k = K_SPACE then
        (if game_state s = Menu \<and> game_mode s \<noteq> Mode_none
         then reset_game (s\<lparr>game_state := Playing\<rparr>)
         else if game_state s = Playing then s\<lparr>game_state := Paused\<rparr>
         else if game_state s = Paused then s\<lparr>game_state := Playing\<rparr>
         else s)
      else if k = K_p then
        (if game_state s = Playing then s\<lparr>game_state := Paused\<rparr>
         else if game_state s = Paused then s\<lparr>game_state := Playing\<rparr>
         else s)
      else if k = K_r then reset_game s
      else s)"

text \<open>Mode selection in the menu.\<close>

definition mode_selection :: "key \<Rightarrow> game \<Rightarrow> game" where
  "mode_selection k s =
     (if game_state s = Menu then
        (if k = K_1 then reset_game (s\<lparr>game_mode := Player_vs_player, game_state := Playing\<rparr>)
         else if k = K_2 then reset_game (s\<lparr>game_mode := Player_vs_ai, game_state := Playing\<rparr>)
         else s)
      else s)"

text \<open>Paddle controls: a key going down (\<open>v = True\<close>) or up (\<open>v = False\<close>) latches a flag.\<close>

definition paddle_controls :: "bool \<Rightarrow> key \<Rightarrow> game \<Rightarrow> game" where
  "paddle_controls v k s =
     (if game_state s = Playing then
        (let s1 = (if k = K_w then s\<lparr>left_up := v\<rparr>
                   else if k = K_s then s\<lparr>left_down := v\<rparr>
                   else s)
         in if game_mode s1 = Player_vs_player then
              (if k = K_UP then s1\<lparr>right_up := v\<rparr>
               else if k = K_DOWN then s1\<lparr>right_down := v\<rparr>
               else s1)
            else s1)
      else s)"

fun handle_event :: "event \<Rightarrow> game \<Rightarrow> game" where
  "handle_event QUIT s = s\<lparr>running := False\<rparr>"
| "handle_event (KEYDOWN k) s = paddle_controls True k (mode_selection k (command_key k s))"
| "handle_event (KEYUP k) s = paddle_controls False k s"
| "handle_event Other_event s = s"

fun handle_events :: "event list \<Rightarrow> game \<Rightarrow> game" where
  "handle_events [] s = s"
| "handle_events (e # es) s = handle_events es (handle_event e s)"

text \<open>The paddle movement of the game logic; \<open>ai_u\<close> is the draw of \<^verbatim>\<open>ai_move\<close>.\<close>

definition move_paddles :: "real \<Rightarrow> game \<Rightarrow> game" where
  "move_paddles ai_u s =
     (let s1 = (if left_up s then s\<lparr>left_paddle := move (- 1) (left_paddle s)\<rparr> else s);
          s2 = (if left_down s1 then s1\<lparr>left_paddle := move 1 (left_paddle s1)\<rparr> else s1)
      in if game_mode s2 = Player_vs_player then
           (let s3 = (if right_up s2 then s2\<lparr>right_paddle := move (- 1) (right_paddle s2)\<rparr>
                      else s2)
            in if right_down s3 then s3\<lparr>right_paddle := move 1 (right_paddle s3)\<rparr> else s3)
         else if game_mode s2 = Player_vs_ai then
           s2\<lparr>right_paddle := ai_move (b_y (ball s2)) 0.2 ai_u (right_paddle s2)\<rparr>
         else s2)"

definition win_check :: "game \<Rightarrow> game" where
  "win_check s =
     (if score_left s \<ge> max_score then s\<lparr>winner := Winner_left, game_state := Game_over\<rparr>
      else if score_right s \<ge> max_score then s\<lparr>winner := Winner_right, game_state := Game_over\<rparr>
      else s)"

text \<open>
  The game logic of one frame: it runs in phase \<open>playing\<close> only. An exception of a
  collision check ends the program, so it ends the frame.
\<close>

definition game_logic :: "real \<Rightarrow> real \<Rightarrow> bool \<Rightarrow> game \<Rightarrow> error + game" where
  "game_logic ai_u u flip s =
     (if game_state s = Playing then
        (let s1 = move_paddles ai_u s;
             (b2, s2) = update u flip (ball s1, s1)
         in case check_paddle_collision b2 (left_paddle s2) of
              Inl e \<Rightarrow> Inl e
            | Inr (hit_left, b3) \<Rightarrow>
                (case check_paddle_collision b3 (right_paddle s2) of
                   Inl e \<Rightarrow> Inl e
                 | Inr (hit_right, b4) \<Rightarrow> Inr (win_check (s2\<lparr>ball := b4\<rparr>))))
      else Inr s)"

text \<open>What one pass of the loop receives: the events of the queue and the random draws.\<close>

record frame_input =
  events :: "event list"
  ai_u :: real
  reset_u :: real
  reset_flip :: bool

definition frame :: "frame_input \<Rightarrow> game \<Rightarrow> error + game" where
  "frame f s = game_logic (ai_u f) (reset_u f) (reset_flip f) (handle_events (events f) s)"

text \<open>\<^verbatim>\<open>while running\<close>: one frame per input, until \<open>running\<close> is false or an exception.\<close>

fun run :: "frame_input list \<Rightarrow> game \<Rightarrow> error + game" where
  "run [] s = Inr s"
| "run (f # fs) s =
     (if running s then
        (case frame f s of Inl e \<Rightarrow> Inl e | Inr s' \<Rightarrow> run fs s')
      else Inr s)"

text \<open>The states in which no division of a frame has a zero divisor.\<close>

definition game_ok :: "game \<Rightarrow> bool" where
  "game_ok s \<longleftrightarrow>
     ball_ok (ball s) \<and>
     floor_div (p_height (left_paddle s)) 2 \<noteq> 0 \<and>
     floor_div (p_height (right_paddle s)) 2 \<noteq> 0"

text \<open>A frame in whose events no mode is selected (neither key 1 nor key 2 goes down).\<close>

definition no_mode_select :: "frame_input \<Rightarrow> bool" where
  "no_mode_select f \<longleftrightarrow> KEYDOWN K_1 \<notin> set (events f) \<and> KEYDOWN K_2 \<notin> set (events f)"

text \<open>
  In a game that is going on (phase \<open>playing\<close> or \<open>paused\<close>) neither side has reached
  the winning score.
\<close>

definition scores_ok :: "game \<Rightarrow> bool" where
  "scores_ok s \<longleftrightarrow>
     game_state s = Menu \<or> game_state s = Game_over \<or>
     (score_left s < max_score \<and> score_right s < max_score)"

section \<open>Paddle bounds\<close>

lemma move_in_bounds:
  assumes "p_height p \<le> HEIGHT - 40"
  shows "in_bounds (move d p)"
  using assms by (simp add: in_bounds_def move_def Let_def)

lemma ai_move_in_bounds:
  assumes "p_height p \<le> HEIGHT - 40"
  shows "in_bounds (ai_move t e u p)"
  using assms by (simp add: in_bounds_def ai_move_def Let_def)

lemma apply_call_height: "p_height (apply_call c p) = p_height p"
  by (cases c) (simp_all add: move_def ai_move_def Let_def)

lemma apply_call_in_bounds:
  assumes "p_height p \<le> HEIGHT - 40"
  shows "in_bounds (apply_call c p)"
  using assms by (cases c) (simp_all add: move_in_bounds ai_move_in_bounds)

lemma paddle_trace_in_bounds:
  assumes "p_height p \<le> HEIGHT - 40" and "q \<in> set (paddle_trace p cs)"
  shows "in_bounds q"
  using assms
proof (induction cs arbitrary: p)
  case Nil
  then show ?case by simp
next
  case (Cons c cs)
  have h: "p_height (apply_call c p) \<le> HEIGHT - 40"
    using Cons.prems(1) by (simp add: apply_call_height)
  from Cons.prems(2) consider "q = apply_call c p" | "q \<in> set (paddle_trace (apply_call c p) cs)"
    by auto
  then show ?case
  proof cases
    case 1
    then show ?thesis using Cons.prems(1) by (simp add: apply_call_in_bounds)
  next
    case 2
    then show ?thesis using Cons.IH [OF h] by simp
  qed
qed

text \<open>
  C3. A paddle whose \<open>y\<close> starts within \<open>[20, HEIGHT - 20 - height]\<close> has its \<open>y\<close> within
  that interval after every call of any finite sequence of \<^verbatim>\<open>move\<close> and \<^verbatim>\<open>ai_move\<close>
  calls, whatever their arguments (and whatever the random draw of \<^verbatim>\<open>ai_move\<close>).
\<close>

theorem paddle_stays_in_bounds:
  assumes "in_bounds p"
  shows "\<forall>q \<in> set (paddle_trace p cs). in_bounds q"
proof -
  from assms have "p_height p \<le> HEIGHT - 40"
    by (simp add: in_bounds_def)
  then show ?thesis
    by (blast intro: paddle_trace_in_bounds)
qed

theorem paddle_stays_in_bounds_witness:
  "in_bounds (Paddle_init 30 260) \<and>
   paddle_trace (Paddle_init 30 260) [Move (-1), Ai_move 1000 (1 / 5) 1, Move 100] =
     [\<lparr>p_x = 30, p_y = 254, p_width = 15, p_height = 80, p_speed = 6\<rparr>,
      \<lparr>p_x = 30, p_y = 260, p_width = 15, p_height = 80, p_speed = 6\<rparr>,
      \<lparr>p_x = 30, p_y = 500, p_width = 15, p_height = 80, p_speed = 6\<rparr>] \<and>
   list_all in_bounds
     (paddle_trace (Paddle_init 30 260) [Move (-1), Ai_move 1000 (1 / 5) 1, Move 100])"
proof -
  have h: "in_bounds (Paddle_init 30 260)"
    by (simp add: in_bounds_def Paddle_init_def HEIGHT_def)
  have t: "paddle_trace (Paddle_init 30 260) [Move (-1), Ai_move 1000 (1 / 5) 1, Move 100] =
     [\<lparr>p_x = 30, p_y = 254, p_width = 15, p_height = 80, p_speed = 6\<rparr>,
      \<lparr>p_x = 30, p_y = 260, p_width = 15, p_height = 80, p_speed = 6\<rparr>,
      \<lparr>p_x = 30, p_y = 500, p_width = 15, p_height = 80, p_speed = 6\<rparr>]"
    by (simp add: Paddle_init_def move_def ai_move_def uniform_def floor_div_def HEIGHT_def Let_def)
  have "list_all in_bounds
     (paddle_trace (Paddle_init 30 260) [Move (-1), Ai_move 1000 (1 / 5) 1, Move 100])"
    unfolding list_all_iff
    by (rule paddle_stays_in_bounds [OF h])
  with h t show ?thesis
    by blast
qed

section \<open>Resetting the game\<close>

text \<open>
  C7. \<^verbatim>\<open>reset_game\<close> called in phase \<open>game_over\<close> sets both scores to 0, the phase to
  \<open>menu\<close> and the mode to \<open>none\<close>; called in phase \<open>playing\<close> or \<open>paused\<close> it sets both
  scores to 0 and the phase to \<open>playing\<close>, and leaves the mode as it was.
\<close>

theorem reset_game_semantics:
  "(game_state g = Game_over \<longrightarrow>
      score_left (reset_game g) = 0 \<and> score_right (reset_game g) = 0 \<and>
      game_state (reset_game g) = Menu \<and> game_mode (reset_game g) = Mode_none) \<and>
   (game_state g = Playing \<or> game_state g = Paused \<longrightarrow>
      score_left (reset_game g) = 0 \<and> score_right (reset_game g) = 0 \<and>
      game_state (reset_game g) = Playing \<and> game_mode (reset_game g) = game_mode g)"
  by (auto simp: reset_game_def Let_def)

theorem reset_game_semantics_witness:
  "game_state \<lparr>score_left = 3, score_right = 10, game_state = Game_over,
               winner = Winner_right, game_mode = Player_vs_ai\<rparr> = Game_over \<and>
   score_left (reset_game \<lparr>score_left = 3, score_right = 10, game_state = Game_over,
               winner = Winner_right, game_mode = Player_vs_ai\<rparr>) = 0 \<and>
   game_state (reset_game \<lparr>score_left = 3, score_right = 10, game_state = Game_over,
               winner = Winner_right, game_mode = Player_vs_ai\<rparr>) = Menu \<and>
   game_mode (reset_game \<lparr>score_left = 3, score_right = 10, game_state = Game_over,
               winner = Winner_right, game_mode = Player_vs_ai\<rparr>) = Mode_none \<and>
   game_state \<lparr>score_left = 2, score_right = 5, game_state = Paused,
               winner = Winner_none, game_mode = Player_vs_ai\<rparr> = Paused \<and>
   score_right (reset_game \<lparr>score_left = 2, score_right = 5, game_state = Paused,
               winner = Winner_none, game_mode = Player_vs_ai\<rparr>) = 0 \<and>
   game_state (reset_game \<lparr>score_left = 2, score_right = 5, game_state = Paused,
               winner = Winner_none, game_mode = Player_vs_ai\<rparr>) = Playing \<and>
   game_mode (reset_game \<lparr>score_left = 2, score_right = 5, game_state = Paused,
               winner = Winner_none, game_mode = Player_vs_ai\<rparr>) = Player_vs_ai"
  using
    reset_game_semantics [of "\<lparr>score_left = 3, score_right = 10, game_state = Game_over,
               winner = Winner_right, game_mode = Player_vs_ai\<rparr>"]
    reset_game_semantics [of "\<lparr>score_left = 2, score_right = 5, game_state = Paused,
               winner = Winner_none, game_mode = Player_vs_ai\<rparr>"]
  by simp

section \<open>Resetting the ball\<close>

lemma launch_angle_range:
  assumes "0 \<le> u" "u \<le> 1"
  shows "- pi / 6 \<le> uniform (- pi / 6) (pi / 6) u \<and> uniform (- pi / 6) (pi / 6) u \<le> pi / 6"
proof -
  have e: "uniform (- pi / 6) (pi / 6) u = - pi / 6 + (pi / 3) * u"
    by (simp add: uniform_def algebra_simps)
  have "0 \<le> (pi / 3) * u" using assms by simp
  moreover have "(pi / 3) * u \<le> pi / 3" using assms by simp
  ultimately show ?thesis unfolding e by linarith
qed

lemma cos_small:
  assumes "- pi / 6 \<le> a" "a \<le> pi / 6"
  shows "sqrt 3 / 2 \<le> cos a"
proof -
  have "cos (pi / 6) \<le> cos \<bar>a\<bar>"
    using assms by (intro cos_monotone_0_pi_le) (auto simp: abs_le_iff)
  then show ?thesis by (simp add: cos_30)
qed

lemma sin_small:
  assumes "- pi / 6 \<le> a" "a \<le> pi / 6"
  shows "\<bar>sin a\<bar> \<le> 1 / 2"
proof -
  have "sin a \<le> sin (pi / 6)"
    using assms by (intro sin_monotone_2pi_le) auto
  moreover have "sin (- (pi / 6)) \<le> sin a"
    using assms by (intro sin_monotone_2pi_le) auto
  ultimately show ?thesis by (simp add: sin_30 abs_le_iff)
qed

text \<open>
  C4. Whatever the ball was before and whatever the two random draws are,
  \<^verbatim>\<open>reset_ball\<close> puts the ball at \<open>(WIDTH / 2, HEIGHT / 2)\<close> with speed 6 and a velocity
  of magnitude 6 whose direction is an angle \<open>a\<close> within 30 degrees of the horizontal,
  pointing right or (after the flip by 180 degrees) left.
\<close>

theorem reset_ball_launch:
  assumes "0 \<le> u" and "u \<le> 1"
  shows "b_x (reset_ball u flip b) = WIDTH / 2 \<and>
         b_y (reset_ball u flip b) = HEIGHT / 2 \<and>
         b_speed (reset_ball u flip b) = 6 \<and>
         sqrt ((b_vx (reset_ball u flip b))\<^sup>2 + (b_vy (reset_ball u flip b))\<^sup>2) = 6 \<and>
         (\<exists>a. - pi / 6 \<le> a \<and> a \<le> pi / 6 \<and>
              b_vx (reset_ball u flip b) = (if flip then - 6 * cos a else 6 * cos a) \<and>
              b_vy (reset_ball u flip b) = (if flip then - 6 * sin a else 6 * sin a)) \<and>
         \<bar>b_vy (reset_ball u flip b)\<bar> \<le> 3 \<and>
         3 * sqrt 3 \<le> \<bar>b_vx (reset_ball u flip b)\<bar>"
proof -
  define a where "a = uniform (- pi / 6) (pi / 6) u"
  have r: "- pi / 6 \<le> a" "a \<le> pi / 6"
    using launch_angle_range [OF assms] by (simp_all add: a_def)
  have vx: "b_vx (reset_ball u flip b) = (if flip then - 6 * cos a else 6 * cos a)"
    by (simp add: reset_ball_def launch_angle_def a_def Let_def)
  have vy: "b_vy (reset_ball u flip b) = (if flip then - 6 * sin a else 6 * sin a)"
    by (simp add: reset_ball_def launch_angle_def a_def Let_def)
  have pos: "b_x (reset_ball u flip b) = WIDTH / 2" "b_y (reset_ball u flip b) = HEIGHT / 2"
    "b_speed (reset_ball u flip b) = 6"
    by (simp_all add: reset_ball_def Let_def floor_div_def WIDTH_def HEIGHT_def)
  have sx: "(b_vx (reset_ball u flip b))\<^sup>2 = 36 * (cos a)\<^sup>2"
    unfolding vx by (simp add: power_mult_distrib)
  have sy: "(b_vy (reset_ball u flip b))\<^sup>2 = 36 * (sin a)\<^sup>2"
    unfolding vy by (simp add: power_mult_distrib)
  have "(b_vx (reset_ball u flip b))\<^sup>2 + (b_vy (reset_ball u flip b))\<^sup>2 = 36 * ((sin a)\<^sup>2 + (cos a)\<^sup>2)"
    unfolding sx sy by (simp only: distrib_left add.commute)
  also have "\<dots> = 6\<^sup>2" by (simp only: sin_cos_squared_add) simp
  finally have mag: "sqrt ((b_vx (reset_ball u flip b))\<^sup>2 + (b_vy (reset_ball u flip b))\<^sup>2) = 6"
    by simp
  have c: "sqrt 3 / 2 \<le> cos a" using cos_small [OF r] .
  have s: "\<bar>sin a\<bar> \<le> 1 / 2" using sin_small [OF r] .
  have "0 \<le> sqrt 3 / 2" by simp
  with c have c0: "0 \<le> cos a" by linarith
  have b1: "\<bar>b_vy (reset_ball u flip b)\<bar> \<le> 3"
    unfolding vy using s by (simp add: abs_mult)
  have b2: "3 * sqrt 3 \<le> \<bar>b_vx (reset_ball u flip b)\<bar>"
    unfolding vx using c c0 by (simp add: abs_mult)
  show ?thesis
    using pos mag r vx vy b1 b2 by blast
qed

theorem reset_ball_launch_witness:
  "(0::real) \<le> 1 / 2 \<and> (1 / 2 :: real) \<le> 1 \<and>
   reset_ball (1 / 2) True \<lparr>b_x = - 2, b_y = 31, b_radius = 12, b_speed = 8, b_vx = - 5, b_vy = 3\<rparr> =
     \<lparr>b_x = 500, b_y = 300, b_radius = 12, b_speed = 6, b_vx = - 6, b_vy = 0\<rparr> \<and>
   sqrt ((b_vx (reset_ball (1 / 2) True \<lparr>b_x = - 2, b_y = 31, b_radius = 12, b_speed = 8, b_vx = - 5, b_vy = 3\<rparr>))\<^sup>2 +
         (b_vy (reset_ball (1 / 2) True \<lparr>b_x = - 2, b_y = 31, b_radius = 12, b_speed = 8, b_vx = - 5, b_vy = 3\<rparr>))\<^sup>2) = 6"
proof -
  have h: "(0::real) \<le> 1 / 2" "(1 / 2 :: real) \<le> 1" by simp_all
  have e: "reset_ball (1 / 2) True \<lparr>b_x = - 2, b_y = 31, b_radius = 12, b_speed = 8, b_vx = - 5, b_vy = 3\<rparr> =
     \<lparr>b_x = 500, b_y = 300, b_radius = 12, b_speed = 6, b_vx = - 6, b_vy = 0\<rparr>"
    by (simp add: reset_ball_def launch_angle_def uniform_def floor_div_def WIDTH_def HEIGHT_def Let_def)
  show ?thesis
    using h e reset_ball_launch [OF h, of True "\<lparr>b_x = - 2, b_y = 31, b_radius = 12, b_speed = 8, b_vx = - 5, b_vy = 3\<rparr>"]
    by blast
qed

section \<open>Collision with a paddle\<close>

lemma collision_cases:
  assumes "check_paddle_collision b p = Inr (hit, b')"
  obtains (miss) "\<not> overlaps b p" "hit = False" "b' = b"
  | (bounce) vx1 vy1 m where
      "overlaps b p" "hit = True" "floor_div (p_height p) 2 \<noteq> 0"
      "vx1 = (if p_x p < floor_div WIDTH 2 then \<bar>b_vx b\<bar> else - \<bar>b_vx b\<bar>)"
      "vy1 = b_speed b * sin (bounce_angle b p)"
      "m = sqrt (vx1\<^sup>2 + vy1\<^sup>2)" "m \<noteq> 0"
      "b' = b\<lparr>b_vx := vx1 / m * min 12 (b_speed b + 0.2),
              b_vy := vy1 / m * min 12 (b_speed b + 0.2),
              b_speed := min 12 (b_speed b + 0.2)\<rparr>"
  using assms
  by (auto simp: check_paddle_collision_def Let_def split: if_splits)

lemma collision_hit_iff:
  assumes "check_paddle_collision b p = Inr (hit, b')"
  shows "hit \<longleftrightarrow> overlaps b p"
  using assms by (cases rule: collision_cases) auto

lemma collision_speed:
  assumes "check_paddle_collision b p = Inr (True, b')"
  shows "b_speed b' = min 12 (b_speed b + 0.2)"
  using assms by (cases rule: collision_cases) auto

lemma collision_magnitude:
  assumes "check_paddle_collision b p = Inr (True, b')"
  shows "(b_vx b')\<^sup>2 + (b_vy b')\<^sup>2 = (b_speed b')\<^sup>2"
  using assms
proof (cases rule: collision_cases)
  case miss
  then show ?thesis by simp
next
  case (bounce vx1 vy1 m)
  define s where "s = min 12 (b_speed b + 0.2)"
  have m2: "m\<^sup>2 = vx1\<^sup>2 + vy1\<^sup>2"
    unfolding bounce(6) by (simp add: sum_power2_ge_zero)
  have "(vx1 / m * s)\<^sup>2 + (vy1 / m * s)\<^sup>2 = (vx1\<^sup>2 + vy1\<^sup>2) / m\<^sup>2 * s\<^sup>2"
    by (simp add: power_mult_distrib power_divide add_divide_distrib distrib_right)
  also have "\<dots> = s\<^sup>2"
    using bounce(7) by (simp add: m2 [symmetric])
  finally show ?thesis
    by (simp add: bounce(8) s_def)
qed

text \<open>
  C2. For a ball whose speed is within \<open>[6, 12]\<close> (as it is from every reset on) and any
  paddle: when \<^verbatim>\<open>check_paddle_collision\<close> returns true, the velocity has the magnitude
  of the new speed, the new speed is \<open>min 12 (speed + 0.2)\<close>, it is not below the old
  one, and it is within \<open>[6, 12]\<close> again.
\<close>

theorem collision_keeps_speed_invariant:
  assumes "6 \<le> b_speed b" and "b_speed b \<le> 12"
    and "check_paddle_collision b p = Inr (True, b')"
  shows "sqrt ((b_vx b')\<^sup>2 + (b_vy b')\<^sup>2) = b_speed b' \<and>
         b_speed b' = min 12 (b_speed b + 0.2) \<and>
         b_speed b \<le> b_speed b' \<and>
         6 \<le> b_speed b' \<and> b_speed b' \<le> 12"
proof -
  have s: "b_speed b' = min 12 (b_speed b + 0.2)"
    using assms(3) by (rule collision_speed)
  have r: "b_speed b \<le> b_speed b'" "6 \<le> b_speed b'" "b_speed b' \<le> 12"
    using assms(1,2) unfolding s by simp_all
  have "sqrt ((b_vx b')\<^sup>2 + (b_vy b')\<^sup>2) = \<bar>b_speed b'\<bar>"
    using collision_magnitude [OF assms(3)] by simp
  then have "sqrt ((b_vx b')\<^sup>2 + (b_vy b')\<^sup>2) = b_speed b'"
    using r(2) by simp
  then show ?thesis using s r by blast
qed

theorem collision_keeps_speed_invariant_witness:
  "(6::real) \<le> 6 \<and> (6::real) \<le> 12 \<and>
   check_paddle_collision
     \<lparr>b_x = 56, b_y = 300, b_radius = 12, b_speed = 6, b_vx = - 6, b_vy = 0\<rparr>
     (Paddle_init 30 260) =
     Inr (True, \<lparr>b_x = 56, b_y = 300, b_radius = 12, b_speed = 31 / 5, b_vx = 31 / 5, b_vy = 0\<rparr>) \<and>
   sqrt ((31 / 5)\<^sup>2 + 0\<^sup>2) = (31 / 5 :: real) \<and>
   (31 / 5 :: real) = min 12 (6 + 0.2) \<and> (6::real) \<le> 31 / 5 \<and> (31 / 5 :: real) \<le> 12"
proof -
  let ?b = "\<lparr>b_x = 56, b_y = 300, b_radius = 12, b_speed = 6, b_vx = - 6, b_vy = 0 :: real\<rparr>"
  let ?b' = "\<lparr>b_x = 56, b_y = 300, b_radius = 12, b_speed = 31 / 5, b_vx = 31 / 5, b_vy = 0 :: real\<rparr>"
  have h: "6 \<le> b_speed ?b" "b_speed ?b \<le> 12" by simp_all
  have c: "check_paddle_collision ?b (Paddle_init 30 260) = Inr (True, ?b')"
    by (simp add: check_paddle_collision_def overlaps_def bounce_angle_def hit_pos_def
        Paddle_init_def floor_div_def WIDTH_def Let_def)
  show ?thesis
    using c collision_keeps_speed_invariant [OF h c] by simp
qed

section \<open>No exception in the simulation core\<close>

lemma reset_ball_ok:
  assumes "0 \<le> u" "u \<le> 1"
  shows "ball_ok (reset_ball u flip b)"
proof -
  define a where "a = uniform (- pi / 6) (pi / 6) u"
  have "sqrt 3 / 2 \<le> cos a"
    unfolding a_def using launch_angle_range [OF assms] by (intro cos_small) simp_all
  moreover have "0 < sqrt 3 / 2" by simp
  ultimately have "cos a \<noteq> 0" by linarith
  then show ?thesis
    by (simp add: ball_ok_def reset_ball_def launch_angle_def a_def Let_def)
qed

lemma fst_update:
  "fst (update u flip (b, g)) =
     (if b_x (wall_collision (integrate b)) < 0 \<or> b_x (wall_collision (integrate b)) > WIDTH
      then reset_ball u flip (wall_collision (integrate b))
      else wall_collision (integrate b))"
  by (simp add: update_def score_detection_def)

lemma wall_integrate_ok:
  "ball_ok b \<Longrightarrow> ball_ok (wall_collision (integrate b))"
  by (simp add: ball_ok_def wall_collision_def integrate_def)

lemma update_ok:
  assumes "ball_ok b" "0 \<le> u" "u \<le> 1"
  shows "ball_ok (fst (update u flip (b, g)))"
  using assms by (simp add: fst_update reset_ball_ok wall_integrate_ok)

lemma collision_ok:
  assumes "ball_ok b" and "check_paddle_collision b p = Inr (hit, b')"
  shows "ball_ok b'"
  using assms(2)
proof (cases rule: collision_cases)
  case miss
  then show ?thesis using assms(1) by simp
next
  case (bounce vx1 vy1 m)
  have "vx1 \<noteq> 0" using assms(1) by (simp add: bounce(4) ball_ok_def)
  moreover have "6 \<le> min 12 (b_speed b + 0.2)"
    using assms(1) by (simp add: ball_ok_def)
  moreover from this have "min 12 (b_speed b + 0.2) \<noteq> 0"
    by linarith
  ultimately show ?thesis
    using bounce(7) by (simp add: bounce(8) ball_ok_def)
qed

lemma collision_total:
  assumes "b_vx b \<noteq> 0" and "floor_div (p_height p) 2 \<noteq> 0"
  shows "\<exists>hit b'. check_paddle_collision b p = Inr (hit, b')"
proof -
  define vx1 where "vx1 = (if p_x p < floor_div WIDTH 2 then \<bar>b_vx b\<bar> else - \<bar>b_vx b\<bar>)"
  have "vx1 \<noteq> 0" using assms(1) by (simp add: vx1_def)
  then have "0 < vx1\<^sup>2 + (b_speed b * sin (bounce_angle b p))\<^sup>2"
    by (simp add: sum_power2_gt_zero_iff)
  then have "0 < sqrt (vx1\<^sup>2 + (b_speed b * sin (bounce_angle b p))\<^sup>2)"
    by (simp only: real_sqrt_gt_0_iff)
  then have "sqrt (vx1\<^sup>2 + (b_speed b * sin (bounce_angle b p))\<^sup>2) \<noteq> 0"
    by linarith
  then show ?thesis
    using assms(2) unfolding vx1_def
    by (cases "overlaps b p") (simp_all only: check_paddle_collision_def Let_def if_True if_False, blast+)
qed

lemma reachable_ok: "reachable b \<Longrightarrow> ball_ok b"
proof (induction rule: reachable.induct)
  case (reach_reset u flip b)
  then show ?case by (rule reset_ball_ok)
next
  case (reach_update b u flip g b' g')
  have "b' = fst (update u flip (b, g))" using reach_update.hyps(4) by simp
  moreover have "ball_ok (fst (update u flip (b, g)))"
    using reach_update.IH reach_update.hyps(2,3) by (rule update_ok)
  ultimately show ?case by simp
next
  case (reach_collision b p hit b')
  then show ?case by (blast intro: collision_ok)
qed

lemma snd_update:
  "snd (update u flip (b, g)) =
     (if b_x b + b_vx b < 0 then g\<lparr>score_right := score_right g + 1\<rparr>
      else if b_x b + b_vx b > WIDTH then g\<lparr>score_left := score_left g + 1\<rparr>
      else g)"
  by (simp add: update_def score_detection_def wall_collision_def integrate_def)

lemma snd_update_fields [simp]:
  "left_paddle (snd (update u flip (b, g))) = left_paddle g"
  "right_paddle (snd (update u flip (b, g))) = right_paddle g"
  "game_mode (snd (update u flip (b, g))) = game_mode g"
  "game_state (snd (update u flip (b, g))) = game_state g"
  "winner (snd (update u flip (b, g))) = winner g"
  "running (snd (update u flip (b, g))) = running g"
  by (simp_all add: snd_update)

lemma move_height [simp]: "p_height (move d p) = p_height p"
  by (simp add: move_def Let_def)

lemma ai_move_height [simp]: "p_height (ai_move t e u p) = p_height p"
  by (simp add: ai_move_def Let_def)

lemma move_paddles_fields [simp]:
  "ball (move_paddles a s) = ball s"
  "p_height (left_paddle (move_paddles a s)) = p_height (left_paddle s)"
  "p_height (right_paddle (move_paddles a s)) = p_height (right_paddle s)"
  "game_mode (move_paddles a s) = game_mode s"
  "game_state (move_paddles a s) = game_state s"
  "score_left (move_paddles a s) = score_left s"
  "score_right (move_paddles a s) = score_right s"
  "running (move_paddles a s) = running s"
  by (simp_all add: move_paddles_def Let_def)

lemma move_paddles_right_none:
  "game_mode s = Mode_none \<Longrightarrow> right_paddle (move_paddles a s) = right_paddle s"
  by (simp add: move_paddles_def Let_def)

lemma win_check_fields [simp]:
  "ball (win_check s) = ball s"
  "left_paddle (win_check s) = left_paddle s"
  "right_paddle (win_check s) = right_paddle s"
  "game_mode (win_check s) = game_mode s"
  "score_left (win_check s) = score_left s"
  "score_right (win_check s) = score_right s"
  "running (win_check s) = running s"
  by (simp_all add: win_check_def)

lemma game_logic_not_playing:
  "game_state s \<noteq> Playing \<Longrightarrow> game_logic a u flip s = Inr s"
  by (simp add: game_logic_def)

lemma game_logic_playing:
  assumes "game_state s = Playing"
    and "check_paddle_collision (fst (update u flip (ball (move_paddles a s), move_paddles a s)))
           (left_paddle (move_paddles a s)) = Inr (h1, b3)"
    and "check_paddle_collision b3 (right_paddle (move_paddles a s)) = Inr (h2, b4)"
  shows "game_logic a u flip s =
           Inr (win_check ((snd (update u flip (ball (move_paddles a s), move_paddles a s)))\<lparr>ball := b4\<rparr>))"
  using assms
  by (simp add: game_logic_def Let_def case_prod_beta)

lemma game_logic_total:
  assumes "game_ok s" "0 \<le> u" "u \<le> 1"
  shows "\<exists>s'. game_logic a u flip s = Inr s' \<and> game_ok s'"
proof (cases "game_state s = Playing")
  case False
  then show ?thesis using assms(1) by (simp add: game_logic_not_playing)
next
  case True
  define s1 where "s1 = move_paddles a s"
  define b2 where "b2 = fst (update u flip (ball s1, s1))"
  define s2 where "s2 = snd (update u flip (ball s1, s1))"
  have ok1: "ball_ok (ball s1)" "floor_div (p_height (left_paddle s1)) 2 \<noteq> 0"
    "floor_div (p_height (right_paddle s1)) 2 \<noteq> 0"
    using assms(1) by (simp_all add: s1_def game_ok_def)
  have ok2: "ball_ok b2"
    unfolding b2_def using ok1(1) assms(2,3) by (rule update_ok)
  then have "b_vx b2 \<noteq> 0" by (simp add: ball_ok_def)
  then obtain h1 b3 where c1: "check_paddle_collision b2 (left_paddle s1) = Inr (h1, b3)"
    using collision_total ok1(2) by blast
  have ok3: "ball_ok b3" using ok2 c1 by (rule collision_ok)
  then have "b_vx b3 \<noteq> 0" by (simp add: ball_ok_def)
  then obtain h2 b4 where c2: "check_paddle_collision b3 (right_paddle s1) = Inr (h2, b4)"
    using collision_total ok1(3) by blast
  have ok4: "ball_ok b4" using ok3 c2 by (rule collision_ok)
  have "game_logic a u flip s = Inr (win_check (s2\<lparr>ball := b4\<rparr>))"
    unfolding s2_def s1_def
    using True c1 c2 unfolding b2_def s1_def by (rule game_logic_playing)
  moreover have "game_ok (win_check (s2\<lparr>ball := b4\<rparr>))"
    using ok4 ok1(2,3) by (simp add: game_ok_def s2_def)
  ultimately show ?thesis by blast
qed

lemma command_key_fields [simp]:
  "ball (command_key k s) = ball s"
  "left_paddle (command_key k s) = left_paddle s"
  "right_paddle (command_key k s) = right_paddle s"
  by (simp_all add: command_key_def reset_game_def Let_def)

lemma mode_selection_fields [simp]:
  "ball (mode_selection k s) = ball s"
  "left_paddle (mode_selection k s) = left_paddle s"
  "right_paddle (mode_selection k s) = right_paddle s"
  by (simp_all add: mode_selection_def reset_game_def Let_def)

lemma paddle_controls_fields [simp]:
  "ball (paddle_controls v k s) = ball s"
  "left_paddle (paddle_controls v k s) = left_paddle s"
  "right_paddle (paddle_controls v k s) = right_paddle s"
  "game_mode (paddle_controls v k s) = game_mode s"
  "game_state (paddle_controls v k s) = game_state s"
  "score_left (paddle_controls v k s) = score_left s"
  "score_right (paddle_controls v k s) = score_right s"
  by (simp_all add: paddle_controls_def Let_def)

lemma handle_event_fields [simp]:
  "ball (handle_event e s) = ball s"
  "left_paddle (handle_event e s) = left_paddle s"
  "right_paddle (handle_event e s) = right_paddle s"
  by (cases e; simp)+

lemma handle_events_fields [simp]:
  "ball (handle_events es s) = ball s"
  "left_paddle (handle_events es s) = left_paddle s"
  "right_paddle (handle_events es s) = right_paddle s"
  by (induction es arbitrary: s; simp)+

lemma frame_total:
  assumes "game_ok s" "0 \<le> reset_u f" "reset_u f \<le> 1"
  shows "\<exists>s'. frame f s = Inr s' \<and> game_ok s'"
proof -
  have "game_ok (handle_events (events f) s)"
    using assms(1) by (simp add: game_ok_def)
  then show ?thesis
    unfolding frame_def using assms(2,3) by (rule game_logic_total)
qed

lemma run_total:
  assumes "game_ok s" "\<forall>f \<in> set fs. 0 \<le> reset_u f \<and> reset_u f \<le> 1"
  shows "\<exists>s'. run fs s = Inr s' \<and> game_ok s'"
  using assms
proof (induction fs arbitrary: s)
  case Nil
  then show ?case by simp
next
  case (Cons f fs)
  show ?case
  proof (cases "running s")
    case False
    then show ?thesis using Cons.prems(1) by simp
  next
    case True
    obtain s1 where s1: "frame f s = Inr s1" "game_ok s1"
      using frame_total [of s f] Cons.prems by auto
    have "\<exists>s'. run fs s1 = Inr s' \<and> game_ok s'"
      using Cons.IH [OF s1(2)] Cons.prems(2) by simp
    then show ?thesis using True s1(1) by simp
  qed
qed

lemma initial_ok:
  assumes "0 \<le> u" "u \<le> 1"
  shows "game_ok (initial u flip)"
  using reset_ball_ok [OF assms]
  by (simp add: game_ok_def initial_def Ball_init_def Paddle_init_def floor_div_def)

text \<open>
  C9. No operation of the simulation core raises. \<^verbatim>\<open>move\<close>, \<^verbatim>\<open>ai_move\<close>, \<^verbatim>\<open>update\<close>,
  \<^verbatim>\<open>reset_game\<close> and the event handling have no failing operation at all (they are
  total functions above); the two divisions of \<^verbatim>\<open>check_paddle_collision\<close> are the only
  ones. For a ball in a state reachable from a reset the velocity magnitude is not zero,
  so the check returns for every paddle whose \<^verbatim>\<open>height // 2\<close> is not zero (the paddles
  of the game have height 80); and the main loop, run from its initial state on any
  events and any draws that can occur, never ends in an exception.
\<close>

theorem simulation_core_never_raises:
  "(reachable b \<and> floor_div (p_height p) 2 \<noteq> 0 \<longrightarrow>
      (\<exists>hit b'. check_paddle_collision b p = Inr (hit, b'))) \<and>
   (0 \<le> u0 \<and> u0 \<le> 1 \<and> (\<forall>f \<in> set fs. 0 \<le> reset_u f \<and> reset_u f \<le> 1) \<longrightarrow>
      (\<exists>s. run fs (initial u0 flip0) = Inr s))"
proof (intro conjI impI)
  assume a: "reachable b \<and> floor_div (p_height p) 2 \<noteq> 0"
  then have "ball_ok b" by (simp add: reachable_ok)
  then have "b_vx b \<noteq> 0" by (simp add: ball_ok_def)
  then show "\<exists>hit b'. check_paddle_collision b p = Inr (hit, b')"
    using a by (simp add: collision_total)
next
  assume a: "0 \<le> u0 \<and> u0 \<le> 1 \<and> (\<forall>f \<in> set fs. 0 \<le> reset_u f \<and> reset_u f \<le> 1)"
  then have "game_ok (initial u0 flip0)" by (simp add: initial_ok)
  then have "\<exists>s'. run fs (initial u0 flip0) = Inr s' \<and> game_ok s'"
    using a by (intro run_total) simp_all
  then show "\<exists>s. run fs (initial u0 flip0) = Inr s" by blast
qed

theorem simulation_core_never_raises_witness:
  "reachable (reset_ball (1 / 2) False
     \<lparr>b_x = 500, b_y = 300, b_radius = 12, b_speed = 0, b_vx = 0, b_vy = 0\<rparr>) \<and>
   floor_div (p_height (Paddle_init 30 260)) 2 \<noteq> 0 \<and>
   (\<exists>hit b'. check_paddle_collision
      (reset_ball (1 / 2) False
         \<lparr>b_x = 500, b_y = 300, b_radius = 12, b_speed = 0, b_vx = 0, b_vy = 0\<rparr>)
      (Paddle_init 30 260) = Inr (hit, b')) \<and>
   (0::real) \<le> 1 / 2 \<and> (1 / 2 :: real) \<le> 1 \<and>
   list_all (\<lambda>f. 0 \<le> reset_u f \<and> reset_u f \<le> 1)
     [\<lparr>events = [KEYDOWN K_2], ai_u = 1 / 2, reset_u = 1 / 2, reset_flip = True\<rparr>,
      \<lparr>events = [KEYDOWN K_w], ai_u = 1, reset_u = 0, reset_flip = False\<rparr>] \<and>
   (\<exists>s. run
      [\<lparr>events = [KEYDOWN K_2], ai_u = 1 / 2, reset_u = 1 / 2, reset_flip = True\<rparr>,
       \<lparr>events = [KEYDOWN K_w], ai_u = 1, reset_u = 0, reset_flip = False\<rparr>]
      (initial (1 / 2) False) = Inr s)"
proof -
  let ?b = "reset_ball (1 / 2) False
     \<lparr>b_x = 500, b_y = 300, b_radius = 12, b_speed = 0, b_vx = 0, b_vy = 0\<rparr>"
  let ?fs = "[\<lparr>events = [KEYDOWN K_2], ai_u = 1 / 2, reset_u = 1 / 2, reset_flip = True\<rparr>,
      \<lparr>events = [KEYDOWN K_w], ai_u = 1, reset_u = 0, reset_flip = False\<rparr>]"
  have r: "reachable ?b" by (rule reach_reset) simp_all
  have h: "floor_div (p_height (Paddle_init 30 260)) 2 \<noteq> 0"
    by (simp add: Paddle_init_def floor_div_def)
  have d: "list_all (\<lambda>f. 0 \<le> reset_u f \<and> reset_u f \<le> 1) ?fs" by simp
  have u: "(0::real) \<le> 1 / 2" "(1 / 2 :: real) \<le> 1" by simp_all
  have 1: "\<exists>hit b'. check_paddle_collision ?b (Paddle_init 30 260) = Inr (hit, b')"
    using simulation_core_never_raises [of ?b "Paddle_init 30 260" 0 "[]" False] r h by blast
  have 2: "\<exists>s. run ?fs (initial (1 / 2) False) = Inr s"
    using simulation_core_never_raises [of ?b "Paddle_init 30 260" "1 / 2" ?fs False] u d
    unfolding list_all_iff by blast
  show ?thesis
    using r h 1 u d 2 by (intro conjI)
qed

section \<open>The bounce angle\<close>

lemma cos_pi_15_lower: "24 / 25 < cos (pi / 15)"
proof -
  have "\<bar>sin (pi / 30)\<bar> \<le> \<bar>pi / 30\<bar>" by (rule abs_sin_x_le_abs_x)
  then have "\<bar>sin (pi / 30)\<bar> \<le> 4 / 30" using pi_less_4 by simp
  then have "\<bar>sin (pi / 30)\<bar>\<^sup>2 \<le> (4 / 30)\<^sup>2"
    by (intro power_mono) simp_all
  then have s: "(sin (pi / 30))\<^sup>2 \<le> 16 / 900" by (simp add: power2_eq_square)
  have "cos (pi / 15) = cos (2 * (pi / 30))" by simp
  also have "\<dots> = 1 - 2 * (sin (pi / 30))\<^sup>2" by (rule cos_double_sin)
  finally show ?thesis using s by simp
qed

lemma sin_13_pi_30: "sin (13 * pi / 30) = cos (pi / 15)"
proof -
  have "sin (13 * pi / 30) = cos (pi / 2 - 13 * pi / 30)"
    using sin_cos_eq [of "13 * pi / 30"] by simp
  also have "pi / 2 - 13 * pi / 30 = pi / 15" by simp
  finally show ?thesis .
qed

lemma sqrt3_upper: "sqrt 3 < 7 / 4"
proof -
  have "sqrt 3 < sqrt ((7 / 4)\<^sup>2)"
    by (simp only: real_sqrt_less_iff) (simp add: power2_eq_square)
  then show ?thesis by simp
qed

lemma center_hit_horizontal:
  assumes "overlaps b p" and "b_y b = p_y p + floor_div (p_height p) 2"
    and "check_paddle_collision b p = Inr (hit, b')"
  shows "hit \<and> bounce_angle b p = 0 \<and> b_vy b' = 0"
  using assms(3)
proof (cases rule: collision_cases)
  case miss
  then show ?thesis using assms(1) by simp
next
  case (bounce vx1 vy1 m)
  have "bounce_angle b p = 0"
    using assms(2) by (simp add: bounce_angle_def hit_pos_def Let_def)
  then show ?thesis by (simp add: bounce)
qed

text \<open>
  A run of the main loop: key 1 starts a game and W goes down in the first frame, W is
  released in the ninth, and 73 frames have passed. The first reset drew the angle 0
  and the flip, so the ball travels horizontally to the left.
\<close>

lemma edge_hit_reached:
  "run (\<lparr>events = [KEYDOWN K_1, KEYDOWN K_w], ai_u = 0, reset_u = 0, reset_flip = False\<rparr> #
        replicate 7 \<lparr>events = [], ai_u = 0, reset_u = 0, reset_flip = False\<rparr> @
        \<lparr>events = [KEYUP K_w], ai_u = 0, reset_u = 0, reset_flip = False\<rparr> #
        replicate 64 \<lparr>events = [], ai_u = 0, reset_u = 0, reset_flip = False\<rparr>)
     (initial (1 / 2) True) =
   Inr \<lparr>score_left = 0, score_right = 0, game_state = Playing, winner = Winner_none,
        game_mode = Player_vs_player,
        left_paddle = \<lparr>p_x = 30, p_y = 212, p_width = 15, p_height = 80, p_speed = 6\<rparr>,
        right_paddle = \<lparr>p_x = 955, p_y = 260, p_width = 15, p_height = 80, p_speed = 6\<rparr>,
        ball = \<lparr>b_x = 62, b_y = 300, b_radius = 12, b_speed = 6, b_vx = - 6, b_vy = 0\<rparr>,
        left_up = False, left_down = False, right_up = False, right_down = False,
        running = True\<rparr>"
  by (simp add: numeral_eq_Suc frame_def game_logic_def move_paddles_def update_def score_detection_def
        wall_collision_def hits_wall_def integrate_def check_paddle_collision_def overlaps_def
        win_check_def command_key_def mode_selection_def paddle_controls_def reset_game_def move_def
        initial_def Paddle_init_def Ball_init_def reset_ball_def launch_angle_def uniform_def
        max_score_def floor_div_def WIDTH_def HEIGHT_def Let_def)

text \<open>
  C1 (the bound of 60 degrees fails). The collision test admits a ball whose centre is
  up to one radius above or below the paddle, so \<^verbatim>\<open>hit_pos\<close> ranges over
  \<open>[-1.3, 1.3]\<close> for the game's paddle and ball, and \<^verbatim>\<open>bounce_angle\<close>, commented
  \<^verbatim>\<open>Max 60 degrees\<close> in the source, reaches 78 degrees. First input: after the run
  above, \<^verbatim>\<open>update\<close> brings the ball to \<open>(56, 300)\<close>, 8 below the lower end of the left
  paddle, which the player has moved up by eight steps; the collision check of that
  frame finds \<^verbatim>\<open>hit_pos = 1.2\<close> and \<^verbatim>\<open>bounce_angle\<close> 72 degrees. Second input: a ball at
  speed 10.6 travelling at about 58 degrees touches the lower end of the paddle;
  \<^verbatim>\<open>bounce_angle\<close> is 78 degrees, and the velocity it leaves with is itself steeper than
  60 degrees (\<open>|vy| > sqrt 3 * |vx|\<close>).
\<close>

theorem bounce_angle_beyond_60_degrees:
  "(\<exists>s. run (\<lparr>events = [KEYDOWN K_1, KEYDOWN K_w], ai_u = 0, reset_u = 0, reset_flip = False\<rparr> #
        replicate 7 \<lparr>events = [], ai_u = 0, reset_u = 0, reset_flip = False\<rparr> @
        \<lparr>events = [KEYUP K_w], ai_u = 0, reset_u = 0, reset_flip = False\<rparr> #
        replicate 64 \<lparr>events = [], ai_u = 0, reset_u = 0, reset_flip = False\<rparr>)
       (initial (1 / 2) True) = Inr s \<and>
      game_state s = Playing \<and>
      fst (update 0 False (ball (move_paddles 0 s), move_paddles 0 s)) =
        \<lparr>b_x = 56, b_y = 300, b_radius = 12, b_speed = 6, b_vx = - 6, b_vy = 0\<rparr> \<and>
      left_paddle (move_paddles 0 s) =
        \<lparr>p_x = 30, p_y = 212, p_width = 15, p_height = 80, p_speed = 6\<rparr>) \<and>
   overlaps \<lparr>b_x = 56, b_y = 300, b_radius = 12, b_speed = 6, b_vx = - 6, b_vy = 0\<rparr>
            \<lparr>p_x = 30, p_y = 212, p_width = 15, p_height = 80, p_speed = 6\<rparr> \<and>
   hit_pos \<lparr>b_x = 56, b_y = 300, b_radius = 12, b_speed = 6, b_vx = - 6, b_vy = 0\<rparr>
           \<lparr>p_x = 30, p_y = 212, p_width = 15, p_height = 80, p_speed = 6\<rparr> = 6 / 5 \<and>
   bounce_angle \<lparr>b_x = 56, b_y = 300, b_radius = 12, b_speed = 6, b_vx = - 6, b_vy = 0\<rparr>
           \<lparr>p_x = 30, p_y = 212, p_width = 15, p_height = 80, p_speed = 6\<rparr> = 2 * pi / 5 \<and>
   pi / 3 < bounce_angle \<lparr>b_x = 56, b_y = 300, b_radius = 12, b_speed = 6, b_vx = - 6, b_vy = 0\<rparr>
           \<lparr>p_x = 30, p_y = 212, p_width = 15, p_height = 80, p_speed = 6\<rparr> \<and>
   (\<exists>b'. check_paddle_collision
           \<lparr>b_x = 56, b_y = 300, b_radius = 12, b_speed = 6, b_vx = - 6, b_vy = 0\<rparr>
           \<lparr>p_x = 30, p_y = 212, p_width = 15, p_height = 80, p_speed = 6\<rparr> = Inr (True, b') \<and>
         b_vy b' = sin (2 * pi / 5) * b_vx b') \<and>
   bounce_angle \<lparr>b_x = 56, b_y = 304, b_radius = 12, b_speed = 53 / 5, b_vx = - (28 / 5), b_vy = 9\<rparr>
           \<lparr>p_x = 30, p_y = 212, p_width = 15, p_height = 80, p_speed = 6\<rparr> = 13 * pi / 30 \<and>
   (\<exists>b'. check_paddle_collision
           \<lparr>b_x = 56, b_y = 304, b_radius = 12, b_speed = 53 / 5, b_vx = - (28 / 5), b_vy = 9\<rparr>
           \<lparr>p_x = 30, p_y = 212, p_width = 15, p_height = 80, p_speed = 6\<rparr> = Inr (True, b') \<and>
         sqrt 3 * \<bar>b_vx b'\<bar> < \<bar>b_vy b'\<bar>)"
proof -
  let ?p = "\<lparr>p_x = 30, p_y = 212, p_width = 15, p_height = 80, p_speed = 6 :: real\<rparr>"
  let ?b1 = "\<lparr>b_x = 56, b_y = 300, b_radius = 12, b_speed = 6, b_vx = - 6, b_vy = 0 :: real\<rparr>"
  let ?b2 = "\<lparr>b_x = 56, b_y = 304, b_radius = 12, b_speed = 53 / 5, b_vx = - (28 / 5), b_vy = 9 :: real\<rparr>"
  have fd: "floor_div 80 2 = 40" "floor_div WIDTH 2 = 500"
    by (simp_all add: floor_div_def WIDTH_def)
  have o1: "overlaps ?b1 ?p" by (simp add: overlaps_def)
  have o2: "overlaps ?b2 ?p" by (simp add: overlaps_def)
  have h1: "hit_pos ?b1 ?p = 6 / 5"
    by (simp add: hit_pos_def Let_def fd)
  have a1: "bounce_angle ?b1 ?p = 2 * pi / 5"
    by (simp add: bounce_angle_def h1)
  have g1: "pi / 3 < bounce_angle ?b1 ?p"
    unfolding a1 using pi_gt_zero by (simp add: field_simps)
  have a2: "bounce_angle ?b2 ?p = 13 * pi / 30"
    by (simp add: bounce_angle_def hit_pos_def Let_def fd)
  obtain hit1 c1 where r1: "check_paddle_collision ?b1 ?p = Inr (hit1, c1)"
    using collision_total [of ?b1 ?p] by (auto simp: fd)
  have t1: "hit1" using collision_hit_iff [OF r1] o1 by simp
  from r1 have d1: "b_vy c1 = sin (2 * pi / 5) * b_vx c1"
  proof (cases rule: collision_cases)
    case miss
    then show ?thesis using o1 by simp
  next
    case (bounce vx1 vy1 m)
    have "vx1 = 6" by (simp add: bounce(4) fd)
    moreover have "vy1 = 6 * sin (2 * pi / 5)" unfolding bounce(5) a1 by simp
    ultimately show ?thesis by (simp add: bounce(8))
  qed
  obtain hit2 c2 where r2: "check_paddle_collision ?b2 ?p = Inr (hit2, c2)"
    using collision_total [of ?b2 ?p] by (auto simp: fd)
  have t2: "hit2" using collision_hit_iff [OF r2] o2 by simp
  from r2 have d2: "sqrt 3 * \<bar>b_vx c2\<bar> < \<bar>b_vy c2\<bar>"
  proof (cases rule: collision_cases)
    case miss
    then show ?thesis using o2 by simp
  next
    case (bounce vx1 vy1 m)
    have vx1: "vx1 = 28 / 5" by (simp add: bounce(4) fd)
    have vy1: "vy1 = 53 / 5 * cos (pi / 15)"
      unfolding bounce(5) a2 sin_13_pi_30 by simp
    have s: "min 12 (b_speed ?b2 + 1 / 5) = 54 / 5" by simp
    have "0 \<le> m" unfolding bounce(6) by simp
    with bounce(7) have m: "0 < m" by linarith
    define k where "k = 54 / 5 / m"
    have k: "0 < k" using m by (simp add: k_def)
    have "sqrt 3 * (28 / 5) < 7 / 4 * (28 / 5)"
      using sqrt3_upper by simp
    also have "\<dots> < 53 / 5 * (24 / 25)" by simp
    also have "\<dots> < 53 / 5 * cos (pi / 15)"
      using cos_pi_15_lower by simp
    finally have lt: "sqrt 3 * (28 / 5) * k < 53 / 5 * cos (pi / 15) * k"
      using k by simp
    have e1: "\<bar>b_vx c2\<bar> = 28 / 5 * k"
      using m by (simp add: bounce(8) vx1 s k_def abs_mult)
    have "0 < cos (pi / 15)" using cos_pi_15_lower by linarith
    then have e2: "\<bar>b_vy c2\<bar> = 53 / 5 * cos (pi / 15) * k"
      using m by (simp add: bounce(8) vy1 s k_def abs_mult)
    have "sqrt 3 * \<bar>b_vx c2\<bar> = sqrt 3 * (28 / 5) * k"
      by (simp only: e1 mult.assoc)
    also have "\<dots> < 53 / 5 * cos (pi / 15) * k" by (rule lt)
    also have "\<dots> = \<bar>b_vy c2\<bar>" by (simp only: e2)
    finally show ?thesis .
  qed
  have e1: "\<exists>b'. check_paddle_collision ?b1 ?p = Inr (True, b') \<and>
      b_vy b' = sin (2 * pi / 5) * b_vx b'"
    using r1 t1 d1 by simp
  have e2: "\<exists>b'. check_paddle_collision ?b2 ?p = Inr (True, b') \<and>
      sqrt 3 * \<bar>b_vx b'\<bar> < \<bar>b_vy b'\<bar>"
    using r2 t2 d2 by simp
  have e0: "\<exists>s. run (\<lparr>events = [KEYDOWN K_1, KEYDOWN K_w], ai_u = 0, reset_u = 0, reset_flip = False\<rparr> #
        replicate 7 \<lparr>events = [], ai_u = 0, reset_u = 0, reset_flip = False\<rparr> @
        \<lparr>events = [KEYUP K_w], ai_u = 0, reset_u = 0, reset_flip = False\<rparr> #
        replicate 64 \<lparr>events = [], ai_u = 0, reset_u = 0, reset_flip = False\<rparr>)
       (initial (1 / 2) True) = Inr s \<and>
      game_state s = Playing \<and>
      fst (update 0 False (ball (move_paddles 0 s), move_paddles 0 s)) = ?b1 \<and>
      left_paddle (move_paddles 0 s) = ?p"
    unfolding edge_hit_reached
    by (simp add: move_paddles_def update_def score_detection_def wall_collision_def
        hits_wall_def integrate_def HEIGHT_def WIDTH_def Let_def)
  show ?thesis
    using e0 o1 h1 a1 g1 e1 a2 e2 by (intro conjI)
qed

section \<open>Wall bounce and score in one update\<close>

text \<open>
  C6 as stated fails: the wall test and the score test of \<^verbatim>\<open>update\<close> are two separate
  \<^verbatim>\<open>if\<close> statements, and a ball that leaves the left edge inside the top border band
  passes both. Here the ball (speed 7, moving up and to the left) has \<open>vy\<close> reflected from
  \<open>-4.2\<close> to \<open>4.2\<close> and, in the same call, scores for the right side and is reset.
\<close>

theorem wall_bounce_and_score_in_one_update:
  "hits_wall (integrate \<lparr>b_x = 3, b_y = 35, b_radius = 12, b_speed = 7,
                          b_vx = - (28 / 5), b_vy = - (21 / 5)\<rparr>) \<and>
   b_vy (integrate \<lparr>b_x = 3, b_y = 35, b_radius = 12, b_speed = 7,
                    b_vx = - (28 / 5), b_vy = - (21 / 5)\<rparr>) = - (21 / 5) \<and>
   b_vy (wall_collision (integrate \<lparr>b_x = 3, b_y = 35, b_radius = 12, b_speed = 7,
                    b_vx = - (28 / 5), b_vy = - (21 / 5)\<rparr>)) = 21 / 5 \<and>
   b_x (wall_collision (integrate \<lparr>b_x = 3, b_y = 35, b_radius = 12, b_speed = 7,
                    b_vx = - (28 / 5), b_vy = - (21 / 5)\<rparr>)) = - (13 / 5) \<and>
   update (1 / 2) False
     (\<lparr>b_x = 3, b_y = 35, b_radius = 12, b_speed = 7, b_vx = - (28 / 5), b_vy = - (21 / 5)\<rparr>,
      \<lparr>score_left = 2, score_right = 4, game_state = Playing, winner = Winner_none,
       game_mode = Player_vs_player\<rparr>) =
     (\<lparr>b_x = 500, b_y = 300, b_radius = 12, b_speed = 6, b_vx = 6, b_vy = 0\<rparr>,
      \<lparr>score_left = 2, score_right = 5, game_state = Playing, winner = Winner_none,
       game_mode = Player_vs_player\<rparr>)"
  by (simp add: update_def score_detection_def wall_collision_def hits_wall_def integrate_def
      reset_ball_def launch_angle_def uniform_def floor_div_def WIDTH_def HEIGHT_def Let_def)

text \<open>
  C6, amended. Within one call of \<^verbatim>\<open>update\<close> the wall bounce and the score are
  independent: the reflection changes the sign of \<open>vy\<close> and nothing else (not \<open>x\<close>,
  \<open>vx\<close> or the speed), so it never causes a score by itself; the scores change exactly
  as the integrated \<open>x\<close> decides (below 0 the right side scores, above \<open>WIDTH\<close> the left
  side), whether or not \<open>vy\<close> was reflected in the same call.
\<close>

theorem score_decided_by_x_alone:
  "snd (update u flip (b, g)) =
     (if b_x b + b_vx b < 0 then g\<lparr>score_right := score_right g + 1\<rparr>
      else if b_x b + b_vx b > WIDTH then g\<lparr>score_left := score_left g + 1\<rparr>
      else g) \<and>
   b_x (wall_collision c) = b_x c \<and>
   b_vx (wall_collision c) = b_vx c \<and>
   b_speed (wall_collision c) = b_speed c \<and>
   b_vy (wall_collision c) = (if hits_wall c then - b_vy c else b_vy c)"
  by (simp add: snd_update wall_collision_def)

section \<open>Reaching the winning score\<close>

lemma game_logic_after_score:
  assumes "game_state s = Playing" and "0 \<le> u" and "u \<le> 1"
    and "floor_div (p_height (left_paddle s)) 2 \<noteq> 0"
    and "floor_div (p_height (right_paddle s)) 2 \<noteq> 0"
    and "b_x (ball s) + b_vx (ball s) < 0 \<or> b_x (ball s) + b_vx (ball s) > WIDTH"
  shows "\<exists>b4. game_logic a u flip s =
           Inr (win_check ((snd (update u flip (ball (move_paddles a s), move_paddles a s)))\<lparr>ball := b4\<rparr>))"
proof -
  define s1 where "s1 = move_paddles a s"
  define b2 where "b2 = fst (update u flip (ball s1, s1))"
  have "b2 = reset_ball u flip (wall_collision (integrate (ball s)))"
    using assms(6) by (auto simp: b2_def s1_def fst_update wall_collision_def integrate_def)
  then have ok2: "ball_ok b2" using assms(2,3) by (simp add: reset_ball_ok)
  then have "b_vx b2 \<noteq> 0" by (simp add: ball_ok_def)
  moreover have "floor_div (p_height (left_paddle s1)) 2 \<noteq> 0"
    using assms(4) by (simp add: s1_def)
  ultimately obtain h1 b3 where c1: "check_paddle_collision b2 (left_paddle s1) = Inr (h1, b3)"
    using collision_total by blast
  have "ball_ok b3" using ok2 c1 by (rule collision_ok)
  then have "b_vx b3 \<noteq> 0" by (simp add: ball_ok_def)
  moreover have "floor_div (p_height (right_paddle s1)) 2 \<noteq> 0"
    using assms(5) by (simp add: s1_def)
  ultimately obtain h2 b4 where c2: "check_paddle_collision b3 (right_paddle s1) = Inr (h2, b4)"
    using collision_total by blast
  have "game_logic a u flip s =
      Inr (win_check ((snd (update u flip (ball (move_paddles a s), move_paddles a s)))\<lparr>ball := b4\<rparr>))"
    using assms(1) c1 c2 unfolding b2_def s1_def by (rule game_logic_playing)
  then show ?thesis by blast
qed

text \<open>
  The scores of a game that is going on are below \<open>max_score\<close>: every way into phase
  \<open>playing\<close> but the pause key resets them, and the win check ends the game in the frame
  in which a side reaches \<open>max_score\<close>.
\<close>

lemma reset_game_scores_ok: "scores_ok (reset_game s)"
  by (simp add: scores_ok_def reset_game_def max_score_def Let_def)

lemma command_key_scores_ok:
  assumes "scores_ok s"
  shows "scores_ok (command_key k s)"
proof -
  have a: "scores_ok (s\<lparr>running := False\<rparr>)"
    using assms by (simp add: scores_ok_def)
  have b: "game_state s = Playing \<Longrightarrow> scores_ok (s\<lparr>game_state := Paused\<rparr>)"
    using assms by (simp add: scores_ok_def)
  have c: "game_state s = Paused \<Longrightarrow> scores_ok (s\<lparr>game_state := Playing\<rparr>)"
    using assms by (simp add: scores_ok_def)
  show ?thesis
    using assms a b c by (simp add: command_key_def reset_game_scores_ok)
qed

lemma mode_selection_scores_ok: "scores_ok s \<Longrightarrow> scores_ok (mode_selection k s)"
  by (simp add: mode_selection_def reset_game_scores_ok)

lemma paddle_controls_scores_ok: "scores_ok s \<Longrightarrow> scores_ok (paddle_controls v k s)"
  by (simp add: scores_ok_def)

lemma handle_event_scores_ok: "scores_ok s \<Longrightarrow> scores_ok (handle_event e s)"
  by (cases e)
    (simp_all add: command_key_scores_ok mode_selection_scores_ok paddle_controls_scores_ok,
     simp add: scores_ok_def)

lemma handle_events_scores_ok: "scores_ok s \<Longrightarrow> scores_ok (handle_events es s)"
  by (induction es arbitrary: s) (simp_all add: handle_event_scores_ok)

lemma win_check_scores_ok: "scores_ok (win_check s)"
  by (simp add: scores_ok_def win_check_def)

lemma game_logic_scores_ok:
  assumes "scores_ok s" and "game_logic a u flip s = Inr s'"
  shows "scores_ok s'"
proof (cases "game_state s = Playing")
  case False
  then show ?thesis using assms by (simp add: game_logic_not_playing)
next
  case True
  then show ?thesis
    using assms(2)
    by (auto simp: game_logic_def Let_def case_prod_beta win_check_scores_ok split: sum.splits)
qed

lemma run_scores_ok:
  assumes "scores_ok s" and "run fs s = Inr s'"
  shows "scores_ok s'"
  using assms
proof (induction fs arbitrary: s)
  case Nil
  then show ?case by simp
next
  case (Cons f fs)
  show ?case
  proof (cases "running s")
    case False
    then show ?thesis using Cons.prems by simp
  next
    case True
    then obtain s1 where s1: "frame f s = Inr s1" "run fs s1 = Inr s'"
      using Cons.prems(2) by (auto split: sum.splits)
    have "scores_ok (handle_events (events f) s)"
      using Cons.prems(1) by (rule handle_events_scores_ok)
    then have "scores_ok s1"
      using s1(1) unfolding frame_def by (rule game_logic_scores_ok)
    then show ?thesis using s1(2) by (rule Cons.IH)
  qed
qed

lemma playing_scores_below_max:
  assumes "run fs (initial u0 flip0) = Inr s" and "game_state (handle_events es s) = Playing"
  shows "score_left (handle_events es s) < max_score \<and> score_right (handle_events es s) < max_score"
proof -
  have "scores_ok (initial u0 flip0)"
    by (simp add: scores_ok_def initial_def)
  then have "scores_ok s" using assms(1) by (rule run_scores_ok)
  then have "scores_ok (handle_events es s)" by (rule handle_events_scores_ok)
  then show ?thesis using assms(2) by (simp add: scores_ok_def)
qed


text \<open>
  C5. In phase \<open>playing\<close>, when the ball is left of the playfield at the score test of
  \<^verbatim>\<open>update\<close> (its \<open>x\<close> after the integration step is below 0, for instance \<open>-1\<close>),
  \<open>score_right\<close> is \<open>max_score - 1 = 9\<close> and the left side has not reached \<open>max_score\<close>
  (no side has in a playing state of a run, as shown above), the game logic of the frame
  returns with \<open>score_right = 10\<close>, phase \<open>game_over\<close> and winner \<open>right\<close>;
  symmetrically, with \<open>x\<close> beyond \<open>WIDTH\<close> at the test and \<open>score_left = 9\<close>, the left
  side wins. The draws of the reset are any that can occur, and the paddles have a height
  with \<^verbatim>\<open>height // 2\<close> not zero, as the game's have.
\<close>

theorem reaching_max_score_ends_game:
  assumes "game_state s = Playing" and "0 \<le> u" and "u \<le> 1"
    and "floor_div (p_height (left_paddle s)) 2 \<noteq> 0"
    and "floor_div (p_height (right_paddle s)) 2 \<noteq> 0"
  shows "(b_x (ball s) + b_vx (ball s) < 0 \<and> score_right s = max_score - 1 \<and>
          score_left s < max_score \<longrightarrow>
            (\<exists>s'. game_logic a u flip s = Inr s' \<and> score_right s' = max_score \<and>
                  score_left s' = score_left s \<and>
                  game_state s' = Game_over \<and> winner s' = Winner_right)) \<and>
         (b_x (ball s) + b_vx (ball s) > WIDTH \<and> score_left s = max_score - 1 \<longrightarrow>
            (\<exists>s'. game_logic a u flip s = Inr s' \<and> score_left s' = max_score \<and>
                  score_right s' = score_right s \<and>
                  game_state s' = Game_over \<and> winner s' = Winner_left))"
proof (intro conjI impI)
  assume h: "b_x (ball s) + b_vx (ball s) < 0 \<and> score_right s = max_score - 1 \<and>
          score_left s < max_score"
  then obtain b4 where
    "game_logic a u flip s =
       Inr (win_check ((snd (update u flip (ball (move_paddles a s), move_paddles a s)))\<lparr>ball := b4\<rparr>))"
    using game_logic_after_score [OF assms] by blast
  moreover have "snd (update u flip (ball (move_paddles a s), move_paddles a s)) =
      (move_paddles a s)\<lparr>score_right := max_score\<rparr>"
    using h by (simp add: snd_update)
  ultimately show "\<exists>s'. game_logic a u flip s = Inr s' \<and> score_right s' = max_score \<and>
      score_left s' = score_left s \<and> game_state s' = Game_over \<and> winner s' = Winner_right"
    using h by (simp add: win_check_def)
next
  assume h: "b_x (ball s) + b_vx (ball s) > WIDTH \<and> score_left s = max_score - 1"
  then have "\<not> b_x (ball s) + b_vx (ball s) < 0" by (simp add: WIDTH_def)
  moreover obtain b4 where
    "game_logic a u flip s =
       Inr (win_check ((snd (update u flip (ball (move_paddles a s), move_paddles a s)))\<lparr>ball := b4\<rparr>))"
    using game_logic_after_score [OF assms] h by blast
  ultimately show "\<exists>s'. game_logic a u flip s = Inr s' \<and> score_left s' = max_score \<and>
      score_right s' = score_right s \<and> game_state s' = Game_over \<and> winner s' = Winner_left"
    using h by (simp add: snd_update win_check_def)
qed

theorem reaching_max_score_ends_game_witness:
  "game_state (initial (1 / 2) False
      \<lparr>score_right := 9, game_state := Playing, game_mode := Player_vs_ai,
       ball := \<lparr>b_x = 5, b_y = 300, b_radius = 12, b_speed = 6, b_vx = - 6, b_vy = 0\<rparr>\<rparr>) = Playing \<and>
   b_x (ball (initial (1 / 2) False
      \<lparr>score_right := 9, game_state := Playing, game_mode := Player_vs_ai,
       ball := \<lparr>b_x = 5, b_y = 300, b_radius = 12, b_speed = 6, b_vx = - 6, b_vy = 0\<rparr>\<rparr>)) +
   b_vx (ball (initial (1 / 2) False
      \<lparr>score_right := 9, game_state := Playing, game_mode := Player_vs_ai,
       ball := \<lparr>b_x = 5, b_y = 300, b_radius = 12, b_speed = 6, b_vx = - 6, b_vy = 0\<rparr>\<rparr>)) = - 1 \<and>
   (\<exists>s'. game_logic 0 (1 / 2) True
      (initial (1 / 2) False
        \<lparr>score_right := 9, game_state := Playing, game_mode := Player_vs_ai,
         ball := \<lparr>b_x = 5, b_y = 300, b_radius = 12, b_speed = 6, b_vx = - 6, b_vy = 0\<rparr>\<rparr>) = Inr s' \<and>
      score_right s' = 10 \<and> score_left s' = 0 \<and>
      game_state s' = Game_over \<and> winner s' = Winner_right) \<and>
   (\<exists>s'. game_logic 0 (1 / 2) True
      (initial (1 / 2) False
        \<lparr>score_left := 9, score_right := 9, game_state := Playing, game_mode := Player_vs_ai,
         ball := \<lparr>b_x = 995, b_y = 300, b_radius = 12, b_speed = 6, b_vx = 6, b_vy = 0\<rparr>\<rparr>) = Inr s' \<and>
      score_left s' = 10 \<and> score_right s' = 9 \<and>
      game_state s' = Game_over \<and> winner s' = Winner_left)"
proof -
  let ?r = "initial (1 / 2) False
      \<lparr>score_right := 9, game_state := Playing, game_mode := Player_vs_ai,
       ball := \<lparr>b_x = 5, b_y = 300, b_radius = 12, b_speed = 6, b_vx = - 6, b_vy = 0\<rparr>\<rparr>"
  let ?l = "initial (1 / 2) False
      \<lparr>score_left := 9, score_right := 9, game_state := Playing, game_mode := Player_vs_ai,
       ball := \<lparr>b_x = 995, b_y = 300, b_radius = 12, b_speed = 6, b_vx = 6, b_vy = 0\<rparr>\<rparr>"
  have u: "(0::real) \<le> 1 / 2" "(1 / 2 :: real) \<le> 1" by simp_all
  have r: "game_state ?r = Playing"
    "floor_div (p_height (left_paddle ?r)) 2 \<noteq> 0" "floor_div (p_height (right_paddle ?r)) 2 \<noteq> 0"
    by (simp_all add: initial_def Paddle_init_def floor_div_def)
  have l: "game_state ?l = Playing"
    "floor_div (p_height (left_paddle ?l)) 2 \<noteq> 0" "floor_div (p_height (right_paddle ?l)) 2 \<noteq> 0"
    by (simp_all add: initial_def Paddle_init_def floor_div_def)
  have xr: "b_x (ball ?r) + b_vx (ball ?r) = - 1" by simp
  have hr: "b_x (ball ?r) + b_vx (ball ?r) < 0 \<and> score_right ?r = max_score - 1 \<and>
      score_left ?r < max_score"
    by (simp add: initial_def max_score_def)
  have hl: "b_x (ball ?l) + b_vx (ball ?l) > WIDTH \<and> score_left ?l = max_score - 1"
    by (simp add: initial_def max_score_def WIDTH_def)
  have 1: "\<exists>s'. game_logic 0 (1 / 2) True ?r = Inr s' \<and> score_right s' = 10 \<and>
      score_left s' = 0 \<and> game_state s' = Game_over \<and> winner s' = Winner_right"
    using reaching_max_score_ends_game [OF r(1) u r(2,3), of 0 True] hr
    by (simp add: max_score_def initial_def)
  have 2: "\<exists>s'. game_logic 0 (1 / 2) True ?l = Inr s' \<and> score_left s' = 10 \<and>
      score_right s' = 9 \<and> game_state s' = Game_over \<and> winner s' = Winner_left"
    using reaching_max_score_ends_game [OF l(1) u l(2,3), of 0 True] hl
    by (simp add: max_score_def initial_def)
  show ?thesis using r(1) xr 1 2 by (intro conjI)
qed

section \<open>Pausing\<close>

lemma run_not_playing_no_events:
  assumes "game_state s \<noteq> Playing" and "\<forall>f \<in> set fs. events f = []"
  shows "run fs s = Inr s"
  using assms(2)
proof (induction fs)
  case Nil
  then show ?case by simp
next
  case (Cons f fs)
  have "frame f s = Inr s"
    using Cons.prems assms(1) by (simp add: frame_def game_logic_not_playing)
  moreover have "run fs s = Inr s"
    using Cons by simp
  ultimately show ?case by simp
qed

lemma toggle_from_playing:
  assumes "game_state s = Playing" and "k = K_SPACE \<or> k = K_p"
  shows "handle_event (KEYDOWN k) s = s\<lparr>game_state := Paused\<rparr>"
proof -
  have c: "command_key k s = s\<lparr>game_state := Paused\<rparr>"
    using assms by (elim disjE) (simp_all add: command_key_def)
  have m: "mode_selection k (s\<lparr>game_state := Paused\<rparr>) = s\<lparr>game_state := Paused\<rparr>"
    by (simp add: mode_selection_def)
  have p: "paddle_controls True k (s\<lparr>game_state := Paused\<rparr>) = s\<lparr>game_state := Paused\<rparr>"
    by (simp add: paddle_controls_def)
  show ?thesis by (simp only: handle_event.simps c m p)
qed

lemma toggle_from_paused:
  assumes "game_state s = Paused" and "k = K_SPACE \<or> k = K_p"
  shows "handle_event (KEYDOWN k) s = s\<lparr>game_state := Playing\<rparr>"
proof -
  have c: "command_key k s = s\<lparr>game_state := Playing\<rparr>"
    using assms by (elim disjE) (simp_all add: command_key_def)
  have m: "mode_selection k (s\<lparr>game_state := Playing\<rparr>) = s\<lparr>game_state := Playing\<rparr>"
    by (simp add: mode_selection_def)
  have p: "paddle_controls True k (s\<lparr>game_state := Playing\<rparr>) = s\<lparr>game_state := Playing\<rparr>"
    using assms(2) by (elim disjE) (simp_all add: paddle_controls_def Let_def)
  show ?thesis by (simp only: handle_event.simps c m p)
qed

text \<open>
  C8. In phase \<open>playing\<close>, a pause key (space or P) turns the phase to \<open>paused\<close> and
  changes nothing else; the game logic of a paused frame returns the state as it is, and
  so does any number of frames without events; a second pause key then gives back the
  state from before the first one, entirely: paddles, ball, scores, mode and latched
  keys.
\<close>

theorem pause_pair_restores_state:
  assumes "game_state s = Playing"
    and "k1 = K_SPACE \<or> k1 = K_p" and "k2 = K_SPACE \<or> k2 = K_p"
    and "\<forall>f \<in> set fs. events f = []"
  shows "handle_event (KEYDOWN k1) s = s\<lparr>game_state := Paused\<rparr> \<and>
         game_logic a u flip (s\<lparr>game_state := Paused\<rparr>) = Inr (s\<lparr>game_state := Paused\<rparr>) \<and>
         run fs (s\<lparr>game_state := Paused\<rparr>) = Inr (s\<lparr>game_state := Paused\<rparr>) \<and>
         handle_event (KEYDOWN k2) (s\<lparr>game_state := Paused\<rparr>) = s"
proof -
  have 1: "handle_event (KEYDOWN k1) s = s\<lparr>game_state := Paused\<rparr>"
    using assms(1,2) by (rule toggle_from_playing)
  have 2: "game_logic a u flip (s\<lparr>game_state := Paused\<rparr>) = Inr (s\<lparr>game_state := Paused\<rparr>)"
    by (simp add: game_logic_not_playing)
  have 3: "run fs (s\<lparr>game_state := Paused\<rparr>) = Inr (s\<lparr>game_state := Paused\<rparr>)"
    using assms(4) by (intro run_not_playing_no_events) simp_all
  have "handle_event (KEYDOWN k2) (s\<lparr>game_state := Paused\<rparr>) =
      s\<lparr>game_state := Paused\<rparr>\<lparr>game_state := Playing\<rparr>"
    using assms(3) by (intro toggle_from_paused) simp_all
  also have "\<dots> = s"
    using assms(1) by simp
  finally have 4: "handle_event (KEYDOWN k2) (s\<lparr>game_state := Paused\<rparr>) = s" .
  show ?thesis using 1 2 3 4 by (intro conjI)
qed

theorem pause_pair_restores_state_witness:
  "game_state (initial (1 / 2) False
      \<lparr>score_left := 3, game_state := Playing, game_mode := Player_vs_ai, left_up := True\<rparr>) = Playing \<and>
   handle_event (KEYDOWN K_SPACE)
     (initial (1 / 2) False
      \<lparr>score_left := 3, game_state := Playing, game_mode := Player_vs_ai, left_up := True\<rparr>) =
     initial (1 / 2) False
      \<lparr>score_left := 3, game_state := Playing, game_mode := Player_vs_ai, left_up := True\<rparr>
      \<lparr>game_state := Paused\<rparr> \<and>
   run [\<lparr>events = [], ai_u = 1 / 3, reset_u = 1 / 4, reset_flip = True\<rparr>,
        \<lparr>events = [], ai_u = 1 / 5, reset_u = 1 / 6, reset_flip = False\<rparr>]
     (initial (1 / 2) False
      \<lparr>score_left := 3, game_state := Playing, game_mode := Player_vs_ai, left_up := True\<rparr>
      \<lparr>game_state := Paused\<rparr>) =
     Inr (initial (1 / 2) False
      \<lparr>score_left := 3, game_state := Playing, game_mode := Player_vs_ai, left_up := True\<rparr>
      \<lparr>game_state := Paused\<rparr>) \<and>
   handle_event (KEYDOWN K_p)
     (initial (1 / 2) False
      \<lparr>score_left := 3, game_state := Playing, game_mode := Player_vs_ai, left_up := True\<rparr>
      \<lparr>game_state := Paused\<rparr>) =
     initial (1 / 2) False
      \<lparr>score_left := 3, game_state := Playing, game_mode := Player_vs_ai, left_up := True\<rparr>"
proof -
  let ?s = "initial (1 / 2) False
      \<lparr>score_left := 3, game_state := Playing, game_mode := Player_vs_ai, left_up := True\<rparr>"
  let ?fs = "[\<lparr>events = [], ai_u = 1 / 3, reset_u = 1 / 4, reset_flip = True\<rparr>,
        \<lparr>events = [], ai_u = 1 / 5, reset_u = 1 / 6, reset_flip = False\<rparr>]"
  have p: "game_state ?s = Playing" by simp
  have k: "K_SPACE = K_SPACE \<or> K_SPACE = K_p" "K_p = K_SPACE \<or> K_p = K_p" by simp_all
  have e: "\<forall>f \<in> set ?fs. events f = []" by simp
  show ?thesis
    using p pause_pair_restores_state [OF p k e, of 0 0 False] by (intro conjI) blast+
qed

section \<open>Reset in the menu\<close>

lemma reset_game_mode_none [simp]:
  "game_mode g = Mode_none \<Longrightarrow> game_mode (reset_game g) = Mode_none"
  by (simp add: reset_game_def Let_def)

lemma handle_event_mode_none:
  assumes "game_mode s = Mode_none" and "e \<noteq> KEYDOWN K_1" and "e \<noteq> KEYDOWN K_2"
  shows "game_mode (handle_event e s) = Mode_none"
proof (cases e)
  case (KEYDOWN k)
  then have "k \<noteq> K_1" "k \<noteq> K_2" using assms(2,3) by simp_all
  then show ?thesis
    using assms(1) KEYDOWN by (simp add: command_key_def mode_selection_def)
qed (use assms(1) in simp_all)

lemma handle_events_mode_none:
  assumes "game_mode s = Mode_none" and "KEYDOWN K_1 \<notin> set es" and "KEYDOWN K_2 \<notin> set es"
  shows "game_mode (handle_events es s) = Mode_none"
  using assms
proof (induction es arbitrary: s)
  case Nil
  then show ?case by simp
next
  case (Cons e es)
  have "game_mode (handle_event e s) = Mode_none"
    using Cons.prems by (intro handle_event_mode_none) auto
  then show ?case using Cons by simp
qed

lemma game_logic_mode_none:
  assumes "game_mode s = Mode_none" and "game_logic a u flip s = Inr s'"
  shows "right_paddle s' = right_paddle s \<and> game_mode s' = Mode_none"
proof (cases "game_state s = Playing")
  case False
  then show ?thesis using assms by (simp add: game_logic_not_playing)
next
  case True
  then show ?thesis
    using assms
    by (auto simp: game_logic_def Let_def case_prod_beta move_paddles_right_none
        split: sum.splits)
qed

lemma frame_mode_none:
  assumes "game_mode s = Mode_none" and "no_mode_select f" and "frame f s = Inr s'"
  shows "right_paddle s' = right_paddle s \<and> game_mode s' = Mode_none"
proof -
  have "game_mode (handle_events (events f) s) = Mode_none"
    using assms(1,2) by (simp add: handle_events_mode_none no_mode_select_def)
  then have "right_paddle s' = right_paddle (handle_events (events f) s) \<and> game_mode s' = Mode_none"
    using assms(3) unfolding frame_def by (rule game_logic_mode_none)
  then show ?thesis by simp
qed

lemma run_mode_none:
  assumes "game_mode s = Mode_none" and "list_all no_mode_select fs" and "run fs s = Inr s'"
  shows "right_paddle s' = right_paddle s \<and> game_mode s' = Mode_none"
  using assms
proof (induction fs arbitrary: s)
  case Nil
  then show ?case by simp
next
  case (Cons f fs)
  show ?case
  proof (cases "running s")
    case False
    then show ?thesis using Cons.prems by simp
  next
    case True
    then obtain s1 where s1: "frame f s = Inr s1" "run fs s1 = Inr s'"
      using Cons.prems(3) by (auto split: sum.splits)
    have m: "right_paddle s1 = right_paddle s \<and> game_mode s1 = Mode_none"
      using Cons.prems(1,2) s1(1) by (intro frame_mode_none) simp_all
    then have "right_paddle s' = right_paddle s1 \<and> game_mode s' = Mode_none"
      using Cons.IH [of s1] Cons.prems(2) s1(2) by simp
    then show ?thesis using m by simp
  qed
qed

text \<open>
  C10. In phase \<open>menu\<close> with mode \<open>none\<close>, the reset key leads to phase \<open>playing\<close> with
  the mode still \<open>none\<close> and both scores 0. From there on, through any frames in which
  no mode is selected, the mode stays \<open>none\<close> and the right paddle is where it was:
  neither control branch of the game logic moves it.
\<close>

theorem reset_in_menu_starts_game_without_mode:
  assumes "game_state s = Menu" and "game_mode s = Mode_none"
    and "list_all no_mode_select fs"
    and "run fs (handle_event (KEYDOWN K_r) s) = Inr s'"
  shows "game_state (handle_event (KEYDOWN K_r) s) = Playing \<and>
         game_mode (handle_event (KEYDOWN K_r) s) = Mode_none \<and>
         score_left (handle_event (KEYDOWN K_r) s) = 0 \<and>
         score_right (handle_event (KEYDOWN K_r) s) = 0 \<and>
         right_paddle s' = right_paddle s \<and> game_mode s' = Mode_none"
proof -
  have e: "handle_event (KEYDOWN K_r) s = s\<lparr>score_left := 0, score_right := 0, game_state := Playing\<rparr>"
    using assms(1) by (simp add: command_key_def mode_selection_def paddle_controls_def
        reset_game_def Let_def)
  have "game_mode (handle_event (KEYDOWN K_r) s) = Mode_none"
    unfolding e using assms(2) by simp
  then have "right_paddle s' = right_paddle (handle_event (KEYDOWN K_r) s) \<and> game_mode s' = Mode_none"
    using assms(3,4) by (rule run_mode_none)
  then show ?thesis unfolding e using assms(2) by simp
qed

theorem reset_in_menu_starts_game_without_mode_witness:
  "game_state (initial (1 / 2) False) = Menu \<and> game_mode (initial (1 / 2) False) = Mode_none \<and>
   list_all no_mode_select
     [\<lparr>events = [KEYDOWN K_UP], ai_u = 1 / 3, reset_u = 1 / 4, reset_flip = True\<rparr>] \<and>
   run [\<lparr>events = [KEYDOWN K_UP], ai_u = 1 / 3, reset_u = 1 / 4, reset_flip = True\<rparr>]
     (handle_event (KEYDOWN K_r) (initial (1 / 2) False)) =
     Inr (initial (1 / 2) False
       \<lparr>game_state := Playing,
        ball := \<lparr>b_x = 506, b_y = 300, b_radius = 12, b_speed = 6, b_vx = 6, b_vy = 0\<rparr>\<rparr>) \<and>
   game_state (handle_event (KEYDOWN K_r) (initial (1 / 2) False)) = Playing \<and>
   game_mode (handle_event (KEYDOWN K_r) (initial (1 / 2) False)) = Mode_none \<and>
   score_left (handle_event (KEYDOWN K_r) (initial (1 / 2) False)) = 0 \<and>
   score_right (handle_event (KEYDOWN K_r) (initial (1 / 2) False)) = 0 \<and>
   right_paddle (initial (1 / 2) False
       \<lparr>game_state := Playing,
        ball := \<lparr>b_x = 506, b_y = 300, b_radius = 12, b_speed = 6, b_vx = 6, b_vy = 0\<rparr>\<rparr>) =
     right_paddle (initial (1 / 2) False)"
proof -
  let ?fs = "[\<lparr>events = [KEYDOWN K_UP], ai_u = 1 / 3, reset_u = 1 / 4, reset_flip = True\<rparr>]"
  let ?s' = "initial (1 / 2) False
       \<lparr>game_state := Playing,
        ball := \<lparr>b_x = 506, b_y = 300, b_radius = 12, b_speed = 6, b_vx = 6, b_vy = 0\<rparr>\<rparr>"
  have m: "game_state (initial (1 / 2) False) = Menu" "game_mode (initial (1 / 2) False) = Mode_none"
    by (simp_all add: initial_def)
  have n: "list_all no_mode_select ?fs" by (simp add: no_mode_select_def)
  have r: "run ?fs (handle_event (KEYDOWN K_r) (initial (1 / 2) False)) = Inr ?s'"
    by (simp add: frame_def game_logic_def move_paddles_def update_def score_detection_def
        wall_collision_def hits_wall_def integrate_def check_paddle_collision_def overlaps_def
        win_check_def command_key_def mode_selection_def paddle_controls_def reset_game_def
        initial_def Paddle_init_def Ball_init_def reset_ball_def launch_angle_def uniform_def
        max_score_def floor_div_def WIDTH_def HEIGHT_def Let_def)
  show ?thesis
    using m n r reset_in_menu_starts_game_without_mode [OF m n r] by (intro conjI) blast+
qed

end
